theory Spec2Isabelle
  imports Main "HOL-Library.Log_Nat" "HOL-Library.Sublist"
begin

section \<open>The portfolio calculator server (server.js)\<close>

text \<open>
  A shallow embedding of \<^verbatim>\<open>src/server.js\<close>: the price lookup
  (\<^verbatim>\<open>getStockPriceFromTwelveData\<close>, \<^verbatim>\<open>getStockPrice\<close>), the history store
  (\<^verbatim>\<open>loadHistory\<close>, \<^verbatim>\<open>saveHistory\<close>) and the two request handlers
  \<^verbatim>\<open>POST /api/portfolio\<close> and \<^verbatim>\<open>GET /api/history\<close>.

  JavaScript values are the datatype \<open>jsval\<close>; numbers are IEEE binary64 values carried
  as exact rationals and rounded after every operation; exceptions are the left summand of
  a sum type; the console, the network and the history file are an explicit \<open>world\<close>.

  Conventions of the model:
  \<^item> strings are lists of code units below 256 (\<open>string\<close>);
  \<^item> the sign of zero is not tracked (no expression of the program observes it);
  \<^item> one request is handled at a time.
\<close>

subsection \<open>Numbers: IEEE 754 binary64\<close>

datatype jsnum = NaN | PosInf | NegInf | Fin rat

definition pow2 :: "int \<Rightarrow> rat" where
  "pow2 e = (if 0 \<le> e then 2 ^ nat e else 1 / 2 ^ nat (- e))"

definition pow10 :: "int \<Rightarrow> rat" where
  "pow10 e = (if 0 \<le> e then 10 ^ nat e else 1 / 10 ^ nat (- e))"

text \<open>For \<open>a > 0\<close>, \<open>ilog2 a\<close> is the exponent \<open>e\<close> with \<open>2^e \<le> a < 2^(e+1)\<close>.\<close>

definition ilog2 :: "rat \<Rightarrow> int" where
  "ilog2 a = (let (p, q) = quotient_of a; d = bitlen p - bitlen q
              in if pow2 d \<le> a then d else d - 1)"

definition round_half_even :: "rat \<Rightarrow> int" where
  "round_half_even q = (let f = \<lfloor>q\<rfloor>; d = q - of_int f
                        in if d < 1 / 2 then f else if 1 / 2 < d then f + 1
                           else if even f then f else f + 1)"

text \<open>
  Rounding of a real value to the nearest binary64 value, ties to even: a significand
  \<open>m\<close> of at most 53 bits at the exponent \<open>e\<close>, which is at least \<open>-1074\<close>
  (subnormals). The value \<open>m * 2^e\<close> reaches \<open>2^1024\<close>, and overflows to infinity,
  exactly when \<open>m\<close> has more than \<open>1024 - e\<close> bits.
\<close>

definition fl :: "rat \<Rightarrow> jsnum" where
  "fl r = (if r = 0 then Fin 0
           else let a = \<bar>r\<bar>;
                    e = max (ilog2 a - 52) (- 1074);
                    m = round_half_even (a / pow2 e)
                in if 1024 < bitlen m + e then (if r < 0 then NegInf else PosInf)
                   else Fin (if r < 0 then - (of_int m * pow2 e) else of_int m * pow2 e))"

text \<open>The operator \<^verbatim>\<open>*\<close> on numbers.\<close>

fun fmul :: "jsnum \<Rightarrow> jsnum \<Rightarrow> jsnum" where
  "fmul NaN _ = NaN"
| "fmul _ NaN = NaN"
| "fmul (Fin a) (Fin b) = fl (a * b)"
| "fmul (Fin a) PosInf = (if a = 0 then NaN else if 0 < a then PosInf else NegInf)"
| "fmul (Fin a) NegInf = (if a = 0 then NaN else if 0 < a then NegInf else PosInf)"
| "fmul PosInf (Fin b) = (if b = 0 then NaN else if 0 < b then PosInf else NegInf)"
| "fmul NegInf (Fin b) = (if b = 0 then NaN else if 0 < b then NegInf else PosInf)"
| "fmul PosInf PosInf = PosInf"
| "fmul PosInf NegInf = NegInf"
| "fmul NegInf PosInf = NegInf"
| "fmul NegInf NegInf = PosInf"

text \<open>The operator \<^verbatim>\<open>+\<close> on numbers.\<close>

fun fadd :: "jsnum \<Rightarrow> jsnum \<Rightarrow> jsnum" where
  "fadd NaN _ = NaN"
| "fadd _ NaN = NaN"
| "fadd (Fin a) (Fin b) = fl (a + b)"
| "fadd PosInf NegInf = NaN"
| "fadd NegInf PosInf = NaN"
| "fadd PosInf _ = PosInf"
| "fadd NegInf _ = NegInf"
| "fadd _ PosInf = PosInf"
| "fadd _ NegInf = NegInf"

text \<open>The comparison \<^verbatim>\<open>x <= 0\<close> on numbers: false for \<^verbatim>\<open>NaN\<close>.\<close>

fun le_zero :: "jsnum \<Rightarrow> bool" where
  "le_zero NaN = False"
| "le_zero PosInf = False"
| "le_zero NegInf = True"
| "le_zero (Fin a) = (a \<le> 0)"

subsection \<open>Numbers to strings\<close>

definition digit_char :: "int \<Rightarrow> char" where
  "digit_char d = char_of (48 + d)"

text \<open>The decimal digits of an integer that is not negative.\<close>

function digits :: "int \<Rightarrow> string" where
  "digits n = (if n < 10 then [digit_char n] else digits (n div 10) @ [digit_char (n mod 10)])"
  by pat_completeness auto
termination
  by (relation "measure nat") auto

declare digits.simps [simp del]

text \<open>For \<open>a > 0\<close>, \<open>dexp a\<close> is the \<open>n\<close> with \<open>10^(n-1) \<le> a < 10^n\<close>.\<close>

definition dexp :: "rat \<Rightarrow> int" where
  "dexp a = (if 1 \<le> a then int (length (digits \<lfloor>a\<rfloor>))
             else 1 - int (length (digits (\<lceil>1 / a\<rceil> - 1))))"

text \<open>
  \<^verbatim>\<open>Number::toString\<close> picks the digits \<open>s\<close> (\<open>k\<close> of them, \<open>k\<close> least) and the
  exponent \<open>n\<close> such that \<open>s * 10^(n-k)\<close> rounds to the number. \<open>candidate a n k\<close> is
  the choice with \<open>k\<close> digits, if there is one, as the pair of \<open>s\<close> and the exponent
  \<open>n - k\<close> of its last digit: of the two neighbours of \<open>a\<close> the one that rounds to
  \<open>a\<close>, the closer one if both do, the even one on a tie.
\<close>

definition candidate :: "rat \<Rightarrow> int \<Rightarrow> nat \<Rightarrow> (int \<times> int) option" where
  "candidate a n k =
     (let x = n - int k; u = pow10 x;
          lo = \<lfloor>a / u\<rfloor>; hi = lo + 1;
          okl = (fl (of_int lo * u) = Fin a);
          okh = (fl (of_int hi * u) = Fin a);
          dl = a - of_int lo * u; dh = of_int hi * u - a
      in if okl \<and> (\<not> okh \<or> dl < dh \<or> (dl = dh \<and> even lo)) then Some (lo, x)
         else if okh then (if hi = 10 ^ k then Some (10 ^ (k - 1), x + 1) else Some (hi, x))
         else None)"

text \<open>
  The search for the least \<open>k\<close>. Seventeen digits are enough for every binary64 value;
  the last equation gives the exact decimal expansion of such a value.
\<close>

fun search :: "rat \<Rightarrow> int \<Rightarrow> nat \<Rightarrow> nat \<Rightarrow> int \<times> int" where
  "search a n 0 k = (\<lfloor>a / pow10 (- 1074)\<rfloor>, - 1074)"
| "search a n (Suc fuel) k =
     (case candidate a n k of
        Some c \<Rightarrow> c
      | None \<Rightarrow> search a n fuel (Suc k))"

definition shortest :: "rat \<Rightarrow> int \<times> int" where
  "shortest a = search a (dexp a) 17 1"

definition exponent_part :: "int \<Rightarrow> string" where
  "exponent_part e = ''e'' @ (if e < 0 then ''-'' else ''+'') @ digits \<bar>e\<bar>"

text \<open>The digits \<open>s\<close> and the exponent \<open>x\<close> of the last digit, laid out.\<close>

definition format_digits :: "int \<times> int \<Rightarrow> string" where
  "format_digits c =
     (case c of (s, x) \<Rightarrow>
        let ds = digits s; k = int (length ds); n = x + k
        in if k \<le> n \<and> n \<le> 21 then ds @ replicate (nat (n - k)) (CHR ''0'')
           else if 0 < n \<and> n \<le> 21 then take (nat n) ds @ ''.'' @ drop (nat n) ds
           else if - 6 < n \<and> n \<le> 0 then ''0.'' @ replicate (nat (- n)) (CHR ''0'') @ ds
           else if k = 1 then ds @ exponent_part (n - 1)
           else take 1 ds @ ''.'' @ drop 1 ds @ exponent_part (n - 1))"

definition numToString :: "jsnum \<Rightarrow> string" where
  "numToString x =
     (case x of
        NaN \<Rightarrow> ''NaN''
      | PosInf \<Rightarrow> ''Infinity''
      | NegInf \<Rightarrow> ''-Infinity''
      | Fin r \<Rightarrow> if r = 0 then ''0''
                 else (if r < 0 then ''-'' else '''') @ format_digits (shortest \<bar>r\<bar>))"

text \<open>
  \<^verbatim>\<open>Number.prototype.toFixed(f)\<close>: the integer \<open>n\<close> nearest to \<open>x * 10^f\<close> (the larger
  one on a tie), its digits padded with zeros to \<open>f + 1\<close> places and split before the
  last \<open>f\<close>. A value that is not finite, or is \<open>10^21\<close> or more, is printed by
  \<^verbatim>\<open>Number::toString\<close> instead.
\<close>

definition toFixed :: "jsnum \<Rightarrow> nat \<Rightarrow> string" where
  "toFixed x f =
     (case x of
        Fin r \<Rightarrow>
          let s = (if r < 0 then ''-'' else ''''); a = \<bar>r\<bar>
          in if 10 ^ 21 \<le> a then s @ numToString (Fin a)
             else let n = \<lfloor>a * 10 ^ f + 1 / 2\<rfloor>;
                      m = digits n;
                      m = (if f \<noteq> 0 \<and> length m \<le> f
                           then replicate (f + 1 - length m) (CHR ''0'') @ m else m);
                      k = length m
                  in if f \<noteq> 0 then s @ take (k - f) m @ ''.'' @ drop (k - f) m else s @ m
      | _ \<Rightarrow> numToString x)"

subsection \<open>Strings to numbers\<close>

definition isDigit :: "char \<Rightarrow> bool" where
  "isDigit c = (48 \<le> (of_char c :: int) \<and> (of_char c :: int) \<le> 57)"

definition isWhite :: "char \<Rightarrow> bool" where
  "isWhite c = ((of_char c :: int) \<in> {9, 10, 11, 12, 13, 32, 160})"

definition digitsVal :: "string \<Rightarrow> int" where
  "digitsVal ds = foldl (\<lambda>a c. 10 * a + (of_char c - 48)) 0 ds"

text \<open>The mathematical value of a numeric literal: infinite, or an exact decimal.\<close>

datatype mv = MVInf | MV rat

text \<open>An optional exponent part \<^verbatim>\<open>e\<close>, \<^verbatim>\<open>E\<close> with sign and digits; its value and the rest.\<close>

definition scanExponent :: "string \<Rightarrow> int \<times> string" where
  "scanExponent cs =
     (case cs of
        c # t \<Rightarrow>
          if c = CHR ''e'' \<or> c = CHR ''E''
          then let (neg, u) = (case t of
                                 d # t' \<Rightarrow> if d = CHR ''-'' then (True, t')
                                           else if d = CHR ''+'' then (False, t')
                                           else (False, t)
                               | [] \<Rightarrow> (False, t));
                   ds = takeWhile isDigit u
               in if ds = [] then (0, cs)
                  else ((if neg then - digitsVal ds else digitsVal ds), dropWhile isDigit u)
          else (0, cs)
      | [] \<Rightarrow> (0, cs))"

text \<open>
  The longest prefix that is an unsigned decimal literal (\<^verbatim>\<open>Infinity\<close>, or digits with
  an optional fraction and exponent), with its value and the text after it.
\<close>

definition scanUnsigned :: "string \<Rightarrow> (mv \<times> string) option" where
  "scanUnsigned cs =
     (if prefix ''Infinity'' cs then Some (MVInf, drop 8 cs)
      else let ip = takeWhile isDigit cs; r1 = dropWhile isDigit cs;
               (fp, r2) = (case r1 of
                             c # t \<Rightarrow> if c = CHR ''.''
                                       then (takeWhile isDigit t, dropWhile isDigit t)
                                       else ([], r1)
                           | [] \<Rightarrow> ([], r1))
           in if ip = [] \<and> fp = [] then None
              else let (ex, r3) = scanExponent r2
                   in Some (MV (of_int (digitsVal (ip @ fp)) * pow10 (ex - int (length fp))), r3))"

definition scanSigned :: "string \<Rightarrow> (mv \<times> bool \<times> string) option" where
  "scanSigned cs =
     (let (neg, u) = (case cs of
                        c # t \<Rightarrow> if c = CHR ''-'' then (True, t)
                                  else if c = CHR ''+'' then (False, t)
                                  else (False, cs)
                      | [] \<Rightarrow> (False, cs))
      in case scanUnsigned u of None \<Rightarrow> None | Some (m, r) \<Rightarrow> Some (m, neg, r))"

definition mvNumber :: "mv \<Rightarrow> bool \<Rightarrow> jsnum" where
  "mvNumber m neg =
     (case m of
        MVInf \<Rightarrow> (if neg then NegInf else PosInf)
      | MV r \<Rightarrow> fl (if neg then - r else r))"

text \<open>\<^verbatim>\<open>parseFloat\<close> on a string: leading white space is skipped, what follows the
  literal is ignored.\<close>

definition parseFloatStr :: "string \<Rightarrow> jsnum" where
  "parseFloatStr s =
     (case scanSigned (dropWhile isWhite s) of
        None \<Rightarrow> NaN
      | Some (m, neg, _) \<Rightarrow> mvNumber m neg)"

definition hexVal :: "char \<Rightarrow> int option" where
  "hexVal c =
     (let n = (of_char c :: int)
      in if 48 \<le> n \<and> n \<le> 57 then Some (n - 48)
         else if 97 \<le> n \<and> n \<le> 102 then Some (n - 87)
         else if 65 \<le> n \<and> n \<le> 70 then Some (n - 55)
         else None)"

text \<open>A non-empty run of digits of the given radix, as a number.\<close>

definition radixVal :: "int \<Rightarrow> string \<Rightarrow> int option" where
  "radixVal b ds =
     (if ds \<noteq> [] \<and> list_all (\<lambda>c. case hexVal c of Some d \<Rightarrow> d < b | None \<Rightarrow> False) ds
      then Some (foldl (\<lambda>a c. b * a + the (hexVal c)) 0 ds)
      else None)"

definition trim :: "string \<Rightarrow> string" where
  "trim s = rev (dropWhile isWhite (rev (dropWhile isWhite s)))"

text \<open>\<^verbatim>\<open>ToNumber\<close> on a string: the whole trimmed string must be a numeric literal.\<close>

definition stringToNumber :: "string \<Rightarrow> jsnum" where
  "stringToNumber s =
     (let t = trim s
      in if t = [] then Fin 0
         else case t of
           a # b # ds \<Rightarrow>
             if a = CHR ''0'' \<and> b \<in> {CHR ''x'', CHR ''X'', CHR ''o'', CHR ''O'', CHR ''b'', CHR ''B''}
             then (case radixVal (if b \<in> {CHR ''x'', CHR ''X''} then 16
                                  else if b \<in> {CHR ''o'', CHR ''O''} then 8 else 2) ds of
                     Some n \<Rightarrow> fl (of_int n)
                   | None \<Rightarrow> NaN)
             else (case scanSigned t of
                     Some (m, neg, []) \<Rightarrow> mvNumber m neg
                   | _ \<Rightarrow> NaN)
         | _ \<Rightarrow> (case scanSigned t of
                   Some (m, neg, []) \<Rightarrow> mvNumber m neg
                 | _ \<Rightarrow> NaN))"


subsection \<open>Strings\<close>

text \<open>
  The strings of this model are lists of code units below 256. The upper case of such a
  code unit: the letters \<^verbatim>\<open>a\<close> to \<^verbatim>\<open>z\<close> and the accented letters from 0xE0 to 0xFE
  (the division sign 0xF7 is not a letter) move down by 32, the sharp s 0xDF becomes the two
  letters \<^verbatim>\<open>SS\<close>, everything else stays. Two code units have an upper case that is
  not below 256 (0xB5, the micro sign, and 0xFF, y with diaeresis); they cannot be told
  here and are left as they are.
\<close>

definition upperChar :: "char \<Rightarrow> string" where
  "upperChar c =
     (let n = (of_char c :: int)
      in if 97 \<le> n \<and> n \<le> 122 then [char_of (n - 32)]
         else if n = 223 then ''SS''
         else if 224 \<le> n \<and> n \<le> 254 \<and> n \<noteq> 247 then [char_of (n - 32)]
         else [c])"

text \<open>\<^verbatim>\<open>String.prototype.toUpperCase\<close>\<close>

definition toUpperCase :: "string \<Rightarrow> string" where
  "toUpperCase s = concat (map upperChar s)"

subsection \<open>Values\<close>

text \<open>
  The values that reach the program: what \<^verbatim>\<open>JSON.parse\<close> (of the request body, of the
  provider's answer, of the history file) produces, and \<^verbatim>\<open>undefined\<close> for a property
  that is absent. An object is the list of its own properties in enumeration order.
\<close>

datatype jsval =
    JUndefined
  | JNull
  | JBool bool
  | JNum jsnum
  | JStr string
  | JArr "jsval list"
  | JObj "(string \<times> jsval) list"

text \<open>\<^verbatim>\<open>ToBoolean\<close>: what \<^verbatim>\<open>!x\<close>, \<^verbatim>\<open>x || y\<close> and \<^verbatim>\<open>x && y\<close> test.\<close>

fun truthy :: "jsval \<Rightarrow> bool" where
  "truthy JUndefined = False"
| "truthy JNull = False"
| "truthy (JBool b) = b"
| "truthy (JNum n) = (n \<noteq> NaN \<and> n \<noteq> Fin 0)"
| "truthy (JStr s) = (s \<noteq> [])"
| "truthy (JArr xs) = True"
| "truthy (JObj ps) = True"

text \<open>
  Reading the property \<open>k\<close> of a value that is neither \<^verbatim>\<open>null\<close> nor
  \<^verbatim>\<open>undefined\<close>, for the keys the program reads (\<^verbatim>\<open>stocks\<close>, \<^verbatim>\<open>symbol\<close>,
  \<^verbatim>\<open>quantity\<close>, \<^verbatim>\<open>price\<close>): an own property of an object, \<^verbatim>\<open>undefined\<close> on
  anything else.
\<close>

fun getProp :: "jsval \<Rightarrow> string \<Rightarrow> jsval" where
  "getProp (JObj ps) k = (case map_of ps k of Some v \<Rightarrow> v | None \<Rightarrow> JUndefined)"
| "getProp _ k = JUndefined"

subsection \<open>Exceptions\<close>

datatype exn = Error string | TypeError string | SyntaxError string

fun message :: "exn \<Rightarrow> string" where
  "message (Error m) = m"
| "message (TypeError m) = m"
| "message (SyntaxError m) = m"

text \<open>\<^verbatim>\<open>try { body } catch (error) { handler }\<close> around a computation without effects.\<close>

definition tryCatch :: "exn + 'a \<Rightarrow> (exn \<Rightarrow> exn + 'a) \<Rightarrow> exn + 'a" where
  "tryCatch body handler = (case body of Inl error \<Rightarrow> handler error | Inr v \<Rightarrow> Inr v)"

subsection \<open>Conversions\<close>

text \<open>
  \<^verbatim>\<open>ToPrimitive\<close>, which \<^verbatim>\<open><=\<close>, \<^verbatim>\<open>*\<close> and \<^verbatim>\<open>parseFloat\<close> apply to their
  operand, calls the methods \<^verbatim>\<open>valueOf\<close> and \<^verbatim>\<open>toString\<close> of an object. The own
  properties of an object that came out of \<^verbatim>\<open>JSON.parse\<close> are data, none of them can be
  called. Without an own property \<^verbatim>\<open>toString\<close> the object inherits
  \<^verbatim>\<open>Object.prototype.toString\<close> and prints as \<^verbatim>\<open>[object Object]\<close>; with one, that
  method is hidden, \<^verbatim>\<open>valueOf\<close> gives no primitive either, and the conversion throws a
  \<^verbatim>\<open>TypeError\<close>. An array is joined: each of its elements other than \<^verbatim>\<open>null\<close> and
  \<^verbatim>\<open>undefined\<close> is converted to a string in the same way, so the conversion of the
  array throws when that of one of its elements does.
\<close>

fun noPrimitive :: "jsval \<Rightarrow> bool" where
  "noPrimitive (JObj ps) = (map_of ps ''toString'' \<noteq> None)"
| "noPrimitive (JArr xs) = list_ex noPrimitive xs"
| "noPrimitive v = False"

text \<open>
  The number of a value that has a primitive. An array is converted through its string
  form, the elements joined by commas: the empty array gives \<open>0\<close>, a one-element
  array the number of its element's string form, a longer one \<^verbatim>\<open>NaN\<close>. An object
  prints as \<^verbatim>\<open>[object Object]\<close>, a number prints as a literal that reads back as itself.
\<close>

fun numberOf :: "jsval \<Rightarrow> jsnum" where
  "numberOf JUndefined = NaN"
| "numberOf JNull = Fin 0"
| "numberOf (JBool b) = (if b then Fin 1 else Fin 0)"
| "numberOf (JNum n) = n"
| "numberOf (JStr s) = stringToNumber s"
| "numberOf (JArr []) = Fin 0"
| "numberOf (JArr [x]) =
     (case x of
        JUndefined \<Rightarrow> Fin 0
      | JNull \<Rightarrow> Fin 0
      | JBool b \<Rightarrow> NaN
      | JObj ps \<Rightarrow> NaN
      | _ \<Rightarrow> numberOf x)"
| "numberOf (JArr (x # y # zs)) = NaN"
| "numberOf (JObj ps) = NaN"

text \<open>\<^verbatim>\<open>ToNumber\<close>, applied by \<^verbatim>\<open><=\<close> and \<^verbatim>\<open>*\<close>.\<close>

definition toNumber :: "jsval \<Rightarrow> exn + jsnum" where
  "toNumber v = (if noPrimitive v then Inl (TypeError ''Cannot convert object to primitive value'')
                 else Inr (numberOf v))"

text \<open>
  The longest numeric prefix of the string form of a value that has a primitive. The
  string form of an array starts with that of its first element, followed by a comma or
  nothing.
\<close>

fun floatOf :: "jsval \<Rightarrow> jsnum" where
  "floatOf (JNum n) = n"
| "floatOf (JStr s) = parseFloatStr s"
| "floatOf (JArr (x # xs)) =
     (case x of
        JNum n \<Rightarrow> n
      | JStr s \<Rightarrow> parseFloatStr s
      | JArr ys \<Rightarrow> floatOf x
      | _ \<Rightarrow> NaN)"
| "floatOf v = NaN"

text \<open>\<^verbatim>\<open>parseFloat(v)\<close> converts \<open>v\<close> to a string and reads its longest numeric prefix.\<close>

definition parseFloat :: "jsval \<Rightarrow> exn + jsnum" where
  "parseFloat v = (if noPrimitive v then Inl (TypeError ''Cannot convert object to primitive value'')
                   else Inr (floatOf v))"

subsection \<open>JSON.stringify(value, null, 2)\<close>

definition hexDigit :: "int \<Rightarrow> char" where
  "hexDigit d = (if d < 10 then char_of (48 + d) else char_of (87 + d))"

definition quoteChar :: "char \<Rightarrow> string" where
  "quoteChar c =
     (let n = (of_char c :: int)
      in if n = 8 then [CHR 0x5C, CHR ''b'']
         else if n = 9 then [CHR 0x5C, CHR ''t'']
         else if n = 10 then [CHR 0x5C, CHR ''n'']
         else if n = 12 then [CHR 0x5C, CHR ''f'']
         else if n = 13 then [CHR 0x5C, CHR ''r'']
         else if n = 34 then [CHR 0x5C, CHR 0x22]
         else if n = 92 then [CHR 0x5C, CHR 0x5C]
         else if n < 32 then [CHR 0x5C, CHR ''u'', CHR ''0'', CHR ''0'',
                              hexDigit (n div 16), hexDigit (n mod 16)]
         else [c])"

definition quoteJSONString :: "string \<Rightarrow> string" where
  "quoteJSONString s = [CHR 0x22] @ concat (map quoteChar s) @ [CHR 0x22]"

fun join :: "string \<Rightarrow> string list \<Rightarrow> string" where
  "join sep [] = []"
| "join sep [x] = x"
| "join sep (x # y # zs) = x @ sep @ join sep (y # zs)"

text \<open>
  \<open>ser ind v\<close> is the text of \<open>v\<close> at the indentation \<open>ind\<close>. Inside an array
  \<^verbatim>\<open>undefined\<close> and the numbers that are not finite print as \<^verbatim>\<open>null\<close>; a property
  whose value is \<^verbatim>\<open>undefined\<close> is left out.
\<close>

fun ser :: "string \<Rightarrow> jsval \<Rightarrow> string"
  and serElems :: "string \<Rightarrow> jsval list \<Rightarrow> string list"
  and serMembers :: "string \<Rightarrow> (string \<times> jsval) list \<Rightarrow> string list" where
  "ser ind JUndefined = ''null''"
| "ser ind JNull = ''null''"
| "ser ind (JBool b) = (if b then ''true'' else ''false'')"
| "ser ind (JNum n) = (case n of Fin r \<Rightarrow> numToString n | _ \<Rightarrow> ''null'')"
| "ser ind (JStr s) = quoteJSONString s"
| "ser ind (JArr xs) =
     (case serElems (ind @ ''  '') xs of
        [] \<Rightarrow> ''[]''
      | ts \<Rightarrow> ''['' @ [CHR 0x0A] @ ind @ ''  '' @ join ('','' @ [CHR 0x0A] @ ind @ ''  '') ts
              @ [CHR 0x0A] @ ind @ '']'')"
| "ser ind (JObj ps) =
     (case serMembers (ind @ ''  '') ps of
        [] \<Rightarrow> ''{}''
      | ts \<Rightarrow> ''{'' @ [CHR 0x0A] @ ind @ ''  '' @ join ('','' @ [CHR 0x0A] @ ind @ ''  '') ts
              @ [CHR 0x0A] @ ind @ ''}'')"
| "serElems ind [] = []"
| "serElems ind (x # xs) = ser ind x # serElems ind xs"
| "serMembers ind [] = []"
| "serMembers ind ((k, v) # ps) =
     (if v = JUndefined then serMembers ind ps
      else (quoteJSONString k @ '': '' @ ser ind v) # serMembers ind ps)"

text \<open>At the top level \<^verbatim>\<open>JSON.stringify(undefined)\<close> is \<^verbatim>\<open>undefined\<close>, not a string.\<close>

definition JSON_stringify :: "jsval \<Rightarrow> string option" where
  "JSON_stringify v = (if v = JUndefined then None else Some (ser [] v))"

subsection \<open>JSON.parse\<close>

definition isJsonWs :: "char \<Rightarrow> bool" where
  "isJsonWs c = ((of_char c :: int) \<in> {9, 10, 13, 32})"

definition skipWs :: "string \<Rightarrow> string" where
  "skipWs cs = dropWhile isJsonWs cs"

definition unescape :: "char \<Rightarrow> char option" where
  "unescape e =
     (if e = CHR 0x22 \<or> e = CHR 0x5C \<or> e = CHR ''/'' then Some e
      else if e = CHR ''b'' then Some (CHR 0x08)
      else if e = CHR ''f'' then Some (CHR 0x0C)
      else if e = CHR ''n'' then Some (CHR 0x0A)
      else if e = CHR ''r'' then Some (CHR 0x0D)
      else if e = CHR ''t'' then Some (CHR 0x09)
      else None)"

definition consChar :: "char \<Rightarrow> (string \<times> string) option \<Rightarrow> (string \<times> string) option" where
  "consChar c r = (case r of None \<Rightarrow> None | Some (s, rest) \<Rightarrow> Some (c # s, rest))"

text \<open>
  The characters of a string literal after its opening quote: the string and the text
  after the closing quote. A \<^verbatim>\<open>\u\<close> escape gives its code unit modulo 256.
\<close>

fun parseChars :: "string \<Rightarrow> (string \<times> string) option" where
  "parseChars [] = None"
| "parseChars (c # cs) =
     (if c = CHR 0x22 then Some ([], cs)
      else if c = CHR 0x5C then
        (case cs of
           [] \<Rightarrow> None
         | e # r \<Rightarrow>
             if e = CHR ''u'' then
               (case r of
                  h1 # h2 # h3 # h4 # r' \<Rightarrow>
                    (case radixVal 16 [h1, h2, h3, h4] of
                       Some n \<Rightarrow> consChar (char_of n) (parseChars r')
                     | None \<Rightarrow> None)
                | _ \<Rightarrow> None)
             else (case unescape e of
                     Some d \<Rightarrow> consChar d (parseChars r)
                   | None \<Rightarrow> None))
      else if (of_char c :: int) < 32 then None
      else consChar c (parseChars cs))"

text \<open>The exponent of a JSON number: absent, or \<^verbatim>\<open>e\<close> with at least one digit.\<close>

definition jsonExponent :: "string \<Rightarrow> (int \<times> string) option" where
  "jsonExponent cs =
     (case cs of
        c # t \<Rightarrow>
          if c = CHR ''e'' \<or> c = CHR ''E''
          then let (neg, u) = (case t of
                                 d # t' \<Rightarrow> if d = CHR ''-'' then (True, t')
                                           else if d = CHR ''+'' then (False, t')
                                           else (False, t)
                               | [] \<Rightarrow> (False, t));
                   ds = takeWhile isDigit u
               in if ds = [] then None
                  else Some ((if neg then - digitsVal ds else digitsVal ds), dropWhile isDigit u)
          else Some (0, cs)
      | [] \<Rightarrow> Some (0, cs))"

text \<open>
  A JSON number after its sign: digits without a leading zero, an optional fraction with
  at least one digit, an optional exponent. The result is its exact value.
\<close>

definition jsonUnsigned :: "string \<Rightarrow> (rat \<times> string) option" where
  "jsonUnsigned u =
     (let ip = takeWhile isDigit u; r1 = dropWhile isDigit u
      in if ip = [] \<or> (hd ip = CHR ''0'' \<and> 1 < length ip) then None
         else case (case r1 of
                      c # t \<Rightarrow> if c = CHR ''.''
                                then (if takeWhile isDigit t = [] then None
                                      else Some (takeWhile isDigit t, dropWhile isDigit t))
                                else Some ([], r1)
                    | [] \<Rightarrow> Some ([], r1)) of
                None \<Rightarrow> None
              | Some (fp, r2) \<Rightarrow>
                  (case jsonExponent r2 of
                     None \<Rightarrow> None
                   | Some (ex, r3) \<Rightarrow>
                       Some (of_int (digitsVal (ip @ fp)) * pow10 (ex - int (length fp)), r3)))"

definition parseNumber :: "string \<Rightarrow> (jsnum \<times> string) option" where
  "parseNumber cs =
     (let (neg, u) = (case cs of
                        c # t \<Rightarrow> if c = CHR ''-'' then (True, t) else (False, cs)
                      | [] \<Rightarrow> (False, cs))
      in case jsonUnsigned u of
           None \<Rightarrow> None
         | Some (v, r) \<Rightarrow> Some (mvNumber (MV v) neg, r))"

text \<open>
  Property creation while an object literal is read: a repeated key keeps its first
  position and takes the last value.
\<close>

fun setProp :: "(string \<times> jsval) list \<Rightarrow> string \<Rightarrow> jsval \<Rightarrow> (string \<times> jsval) list" where
  "setProp [] k v = [(k, v)]"
| "setProp (p # ps) k v = (if fst p = k then (k, v) # ps else p # setProp ps k v)"

text \<open>An array index: the canonical decimal form of an integer from 0 to \<open>2^32 - 2\<close>.\<close>

definition isIndexKey :: "string \<Rightarrow> bool" where
  "isIndexKey k = (k \<noteq> [] \<and> list_all isDigit k \<and> (k = ''0'' \<or> hd k \<noteq> CHR ''0'')
                   \<and> digitsVal k \<le> 4294967294)"

text \<open>Enumeration order of an object: the array indices ascending, then the other keys
  in the order of their creation.\<close>

definition objectOf :: "(string \<times> jsval) list \<Rightarrow> (string \<times> jsval) list" where
  "objectOf ms =
     (let ps = foldl (\<lambda>acc m. setProp acc (fst m) (snd m)) [] ms
      in sort_key (\<lambda>p. digitsVal (fst p)) (filter (\<lambda>p. isIndexKey (fst p)) ps)
         @ filter (\<lambda>p. \<not> isIndexKey (fst p)) ps)"

text \<open>
  Recursive descent; the first argument bounds the nesting and the number of elements
  still to read, and the length of the text is always enough.
\<close>

fun parseValue :: "nat \<Rightarrow> string \<Rightarrow> (jsval \<times> string) option"
  and parseElems :: "nat \<Rightarrow> string \<Rightarrow> (jsval list \<times> string) option"
  and parseMembers :: "nat \<Rightarrow> string \<Rightarrow> ((string \<times> jsval) list \<times> string) option" where
  "parseValue 0 cs = None"
| "parseValue (Suc n) cs =
     (case cs of
        [] \<Rightarrow> None
      | c # t \<Rightarrow>
          if c = CHR ''['' then
            (case skipWs t of
               [] \<Rightarrow> None
             | d # t' \<Rightarrow>
                 if d = CHR '']'' then Some (JArr [], t')
                 else (case parseElems n (d # t') of
                         None \<Rightarrow> None
                       | Some (xs, r) \<Rightarrow> Some (JArr xs, r)))
          else if c = CHR ''{'' then
            (case skipWs t of
               [] \<Rightarrow> None
             | d # t' \<Rightarrow>
                 if d = CHR ''}'' then Some (JObj [], t')
                 else (case parseMembers n (d # t') of
                         None \<Rightarrow> None
                       | Some (ms, r) \<Rightarrow> Some (JObj (objectOf ms), r)))
          else if c = CHR 0x22 then
            (case parseChars t of None \<Rightarrow> None | Some (s, r) \<Rightarrow> Some (JStr s, r))
          else if prefix ''true'' cs then Some (JBool True, drop 4 cs)
          else if prefix ''false'' cs then Some (JBool False, drop 5 cs)
          else if prefix ''null'' cs then Some (JNull, drop 4 cs)
          else (case parseNumber cs of None \<Rightarrow> None | Some (x, r) \<Rightarrow> Some (JNum x, r)))"
| "parseElems 0 cs = None"
| "parseElems (Suc n) cs =
     (case parseValue n cs of
        None \<Rightarrow> None
      | Some (v, r) \<Rightarrow>
          (case skipWs r of
             [] \<Rightarrow> None
           | d # t \<Rightarrow>
               if d = CHR '','' then
                 (case parseElems n (skipWs t) of
                    None \<Rightarrow> None
                  | Some (xs, r') \<Rightarrow> Some (v # xs, r'))
               else if d = CHR '']'' then Some ([v], t)
               else None))"
| "parseMembers 0 cs = None"
| "parseMembers (Suc n) cs =
     (case cs of
        [] \<Rightarrow> None
      | c # t \<Rightarrow>
          if c = CHR 0x22 then
            (case parseChars t of
               None \<Rightarrow> None
             | Some (k, r) \<Rightarrow>
                 (case skipWs r of
                    [] \<Rightarrow> None
                  | d # t' \<Rightarrow>
                      if d = CHR '':'' then
                        (case parseValue n (skipWs t') of
                           None \<Rightarrow> None
                         | Some (v, r') \<Rightarrow>
                             (case skipWs r' of
                                [] \<Rightarrow> None
                              | e # t'' \<Rightarrow>
                                  if e = CHR '','' then
                                    (case parseMembers n (skipWs t'') of
                                       None \<Rightarrow> None
                                     | Some (ms, r'') \<Rightarrow> Some ((k, v) # ms, r''))
                                  else if e = CHR ''}'' then Some ([(k, v)], t'')
                                  else None))
                      else None))
          else None)"

definition JSON_parse :: "string \<Rightarrow> exn + jsval" where
  "JSON_parse text =
     (case parseValue (length text) (skipWs text) of
        None \<Rightarrow> Inl (SyntaxError ''Unexpected token in JSON'')
      | Some (v, r) \<Rightarrow>
          if skipWs r = [] then Inr v else Inl (SyntaxError ''Unexpected token in JSON''))"


subsection \<open>The world outside the program\<close>

text \<open>The outcome of \<^verbatim>\<open>axios.get\<close>: a rejection (network error, timeout, status
  outside 2xx) with its message, or a response with its \<^verbatim>\<open>data\<close>.\<close>

datatype axios_result = Rejected string | Response jsval

text \<open>
  What the program does not control: the provider's answer for each symbol, whether the
  history file can be written (\<open>writeError\<close> is the message of the failure, if any), and
  the clock (\<^verbatim>\<open>new Date().toISOString()\<close> and \<^verbatim>\<open>Date.now()\<close>).
\<close>

record env =
  provider :: "string \<Rightarrow> axios_result"
  writeError :: "string option"
  isoTime :: string
  nowMs :: int

text \<open>
  What the program changes: the lines on the console, the symbols it asked the provider
  for, the texts it passed to \<^verbatim>\<open>fs.writeFile\<close>, and the content of
  \<^verbatim>\<open>portfolio_history.json\<close> (\<open>None\<close> when the file cannot be read).
\<close>

record world =
  console :: "string list"
  requests :: "string list"
  writes :: "string list"
  historyFile :: "string option"

definition readFile :: "world \<Rightarrow> exn + string" where
  "readFile w =
     (case historyFile w of
        None \<Rightarrow> Inl (Error ''ENOENT: no such file or directory'')
      | Some data \<Rightarrow> Inr data)"

text \<open>A write that fails leaves the file as it was.\<close>

definition writeFile :: "env \<Rightarrow> string \<Rightarrow> world \<Rightarrow> (exn + unit) \<times> world" where
  "writeFile e text w =
     (let w1 = w\<lparr>writes := writes w @ [text]\<rparr>
      in case writeError e of
           None \<Rightarrow> (Inr (), w1\<lparr>historyFile := Some text\<rparr>)
         | Some m \<Rightarrow> (Inl (Error m), w1))"

definition log :: "string \<Rightarrow> world \<Rightarrow> world" where
  "log line w = w\<lparr>console := console w @ [line]\<rparr>"

subsection \<open>Price lookup\<close>

text \<open>The \<^verbatim>\<open>try\<close> block of \<^verbatim>\<open>getStockPriceFromTwelveData\<close> (lines 25 to 37), given the
  outcome of the request.\<close>

definition requestPrice :: "env \<Rightarrow> string \<Rightarrow> exn + jsnum" where
  "requestPrice e symbol =
     (case provider e symbol of
        Rejected m \<Rightarrow> Inl (Error m)
      | Response data \<Rightarrow>
          if truthy data \<and> truthy (getProp data ''price'')
          then parseFloat (getProp data ''price'')
          else Inl (Error ''Invalid response format''))"

definition getStockPriceFromTwelveData :: "env \<Rightarrow> string \<Rightarrow> world \<Rightarrow> (exn + jsnum) \<times> world" where
  "getStockPriceFromTwelveData e symbol w =
     (let w1 = w\<lparr>requests := requests w @ [symbol]\<rparr>
      in case requestPrice e symbol of
           Inr price \<Rightarrow> (Inr price, w1)
         | Inl error \<Rightarrow>
             (Inl error, log (''TwelveData API error for '' @ symbol @ '': '' @ message error) w1))"

definition getStockPrice :: "env \<Rightarrow> string \<Rightarrow> world \<Rightarrow> (exn + jsnum) \<times> world" where
  "getStockPrice e symbol w =
     (case getStockPriceFromTwelveData e symbol w of
        (Inr price, w1) \<Rightarrow> (Inr price, w1)
      | (Inl error, w1) \<Rightarrow>
          (Inl (Error (''Unable to fetch price for '' @ symbol)),
           log (''TwelveData failed for '' @ symbol @ '', trying Alpha Vantage...'') w1))"

subsection \<open>History store\<close>

definition loadHistory :: "world \<Rightarrow> exn + jsval" where
  "loadHistory w =
     tryCatch (case readFile w of Inl error \<Rightarrow> Inl error | Inr data \<Rightarrow> JSON_parse data)
              (\<lambda>error. Inr (JArr []))"

text \<open>\<^verbatim>\<open>fs.writeFile\<close> refuses \<^verbatim>\<open>undefined\<close> as data; that too is caught and logged.\<close>

definition saveHistory :: "env \<Rightarrow> jsval \<Rightarrow> world \<Rightarrow> (exn + unit) \<times> world" where
  "saveHistory e history w =
     (case (case JSON_stringify history of
              None \<Rightarrow> (Inl (TypeError ''The data argument must be of type string''), w)
            | Some text \<Rightarrow> writeFile e text w) of
        (Inr u, w1) \<Rightarrow> (Inr (), w1)
      | (Inl error, w1) \<Rightarrow> (Inr (), log (''Error saving history: '' @ message error) w1))"

subsection \<open>POST /api/portfolio\<close>

datatype http = Http nat jsval

text \<open>The variables of the loop over the stocks: \<^verbatim>\<open>results\<close>,
  \<^verbatim>\<open>totalPortfolioValue\<close>, and the world.\<close>

record loop =
  results :: "jsval list"
  total :: jsnum
  wld :: world

definition push :: "jsval \<Rightarrow> loop \<Rightarrow> loop" where
  "push r st = st\<lparr>results := results st @ [r]\<rparr>"

text \<open>
  The test of line 96, \<^verbatim>\<open>!symbol || !quantity || quantity <= 0\<close>. The comparison is
  reached when both are truthy, and it converts the quantity to a number, which can throw.
\<close>

definition rejected :: "jsval \<Rightarrow> jsval \<Rightarrow> exn + bool" where
  "rejected symbol quantity =
     (if \<not> truthy symbol \<or> \<not> truthy quantity then Inr True
      else case toNumber quantity of
             Inl error \<Rightarrow> Inl error
           | Inr q \<Rightarrow> Inr (le_zero q))"

text \<open>
  The body of the loop (lines 94 to 121). Three things throw outside the inner
  \<^verbatim>\<open>try\<close> and leave the loop: destructuring \<^verbatim>\<open>null\<close>, the comparison of a quantity
  that has no primitive, and \<^verbatim>\<open>symbol.toUpperCase()\<close> when the symbol is not a string
  (it throws first inside the \<^verbatim>\<open>try\<close>, before any request is made, and then again
  inside the \<^verbatim>\<open>catch\<close>). Inside the \<^verbatim>\<open>try\<close> the lookup can throw, and the
  product \<^verbatim>\<open>currentPrice * quantity\<close> converts the quantity once more; both are caught
  at line 116.
\<close>

definition processStock :: "env \<Rightarrow> jsval \<Rightarrow> loop \<Rightarrow> exn + loop" where
  "processStock e stock st =
     (if stock = JNull \<or> stock = JUndefined
      then Inl (TypeError ''Cannot destructure property symbol of stock'')
      else
        let symbol = getProp stock ''symbol''; quantity = getProp stock ''quantity''
        in case rejected symbol quantity of
             Inl error \<Rightarrow> Inl error
           | Inr True \<Rightarrow>
               Inr (push (JObj [(''symbol'', if truthy symbol then symbol else JStr ''Unknown''),
                                (''error'', JStr ''Invalid symbol or quantity'')]) st)
           | Inr False \<Rightarrow>
               (case symbol of
                  JStr s \<Rightarrow>
                    (case getStockPrice e (toUpperCase s) (wld st) of
                       (Inr currentPrice, w1) \<Rightarrow>
                         (case toNumber quantity of
                            Inr q \<Rightarrow>
                              let totalValue = parseFloatStr (toFixed (fmul currentPrice q) 2)
                              in Inr ((push (JObj [(''symbol'', JStr (toUpperCase s)),
                                                   (''quantity'', quantity),
                                                   (''currentPrice'', JStr (toFixed currentPrice 2)),
                                                   (''totalValue'', JStr (toFixed totalValue 2))]) st)
                                      \<lparr>total := fadd (total st) totalValue, wld := w1\<rparr>)
                          | Inl error \<Rightarrow>
                              Inr ((push (JObj [(''symbol'', JStr (toUpperCase s)),
                                                (''error'', JStr (''Unable to fetch price: '' @ message error))]) st)
                                   \<lparr>wld := w1\<rparr>))
                     | (Inl error, w1) \<Rightarrow>
                         Inr ((push (JObj [(''symbol'', JStr (toUpperCase s)),
                                           (''error'', JStr (''Unable to fetch price: '' @ message error))]) st)
                              \<lparr>wld := w1\<rparr>))
                | _ \<Rightarrow> Inl (TypeError ''symbol.toUpperCase is not a function'')))"

text \<open>The loop: an exception leaves it with the world as the items before have made it.\<close>

fun processStocks :: "env \<Rightarrow> jsval list \<Rightarrow> loop \<Rightarrow> (exn \<times> world) + loop" where
  "processStocks e [] st = Inr st"
| "processStocks e (stock # rest) st =
     (case processStock e stock st of
        Inl error \<Rightarrow> Inl (error, wld st)
      | Inr st1 \<Rightarrow> processStocks e rest st1)"

definition makeResponse :: "env \<Rightarrow> loop \<Rightarrow> jsval" where
  "makeResponse e st =
     JObj [(''stocks'', JArr (results st)),
           (''totalPortfolioValue'', JStr (toFixed (total st) 2)),
           (''timestamp'', JStr (isoTime e))]"

text \<open>\<^verbatim>\<open>{ ...response, id: Date.now() }\<close>\<close>

definition makeEntry :: "env \<Rightarrow> jsval \<Rightarrow> jsval" where
  "makeEntry e response =
     (case response of
        JObj ps \<Rightarrow> JObj (setProp ps ''id'' (JNum (fl (of_int (nowMs e)))))
      | _ \<Rightarrow> JObj [(''id'', JNum (fl (of_int (nowMs e))))])"

text \<open>\<^verbatim>\<open>history.unshift(historyEntry)\<close>: only an array has the method.\<close>

definition unshift :: "jsval \<Rightarrow> jsval \<Rightarrow> exn + jsval" where
  "unshift history entry =
     (case history of
        JArr h \<Rightarrow> Inr (JArr (entry # h))
      | _ \<Rightarrow> Inl (TypeError ''history.unshift is not a function''))"

text \<open>\<^verbatim>\<open>if (history.length > 50) history.splice(50)\<close>\<close>

definition keepLast50 :: "jsval \<Rightarrow> jsval" where
  "keepLast50 history =
     (case history of
        JArr h \<Rightarrow> if 50 < length h then JArr (take 50 h) else JArr h
      | _ \<Rightarrow> history)"

text \<open>Lines 130 to 143: load, prepend, truncate, save.\<close>

definition recordHistory :: "env \<Rightarrow> jsval \<Rightarrow> world \<Rightarrow> (exn + unit) \<times> world" where
  "recordHistory e response w =
     (case loadHistory w of
        Inl error \<Rightarrow> (Inl error, w)
      | Inr history \<Rightarrow>
          (case unshift history (makeEntry e response) of
             Inl error \<Rightarrow> (Inl error, w)
           | Inr history1 \<Rightarrow> saveHistory e (keepLast50 history1) w))"

text \<open>The body of the handler's \<^verbatim>\<open>try\<close>; the argument is \<^verbatim>\<open>req.body\<close>.\<close>

definition portfolioBody :: "env \<Rightarrow> jsval \<Rightarrow> world \<Rightarrow> (exn + http) \<times> world" where
  "portfolioBody e body w =
     (if body = JNull \<or> body = JUndefined
      then (Inl (TypeError ''Cannot destructure property stocks of req.body''), w)
      else
        let stocks = getProp body ''stocks''
        in case stocks of
             JArr (item # items) \<Rightarrow>
               (case processStocks e (item # items) \<lparr>results = [], total = Fin 0, wld = w\<rparr> of
                  Inl (error, w1) \<Rightarrow> (Inl error, w1)
                | Inr st \<Rightarrow>
                    let response = makeResponse e st
                    in (case recordHistory e response (wld st) of
                          (Inl error, w1) \<Rightarrow> (Inl error, w1)
                        | (Inr u, w1) \<Rightarrow> (Inr (Http 200 response), w1)))
           | _ \<Rightarrow> (Inr (Http 400 (JObj [(''error'',
                        JStr ''Invalid input. Please provide an array of stocks.'')])), w))"

definition portfolio :: "env \<Rightarrow> jsval \<Rightarrow> world \<Rightarrow> http \<times> world" where
  "portfolio e body w =
     (case portfolioBody e body w of
        (Inr response, w1) \<Rightarrow> (response, w1)
      | (Inl error, w1) \<Rightarrow>
          (Http 500 (JObj [(''error'', JStr ''Internal server error. Please try again later.'')]),
           log (''Portfolio calculation error: '' @ message error) w1))"

subsection \<open>GET /api/history\<close>

definition history :: "world \<Rightarrow> http \<times> world" where
  "history w =
     (case loadHistory w of
        Inr h \<Rightarrow> (Http 200 h, w)
      | Inl error \<Rightarrow>
          (Http 500 (JObj [(''error'', JStr ''Unable to retrieve history'')]),
           log (''History retrieval error: '' @ message error) w))"


subsection \<open>Sample surroundings\<close>

definition emptyWorld :: world where
  "emptyWorld = \<lparr>console = [], requests = [], writes = [], historyFile = None\<rparr>"

text \<open>A provider that answers \<^verbatim>\<open>{"price": p}\<close> for every symbol.\<close>

definition fixedPrice :: "jsval \<Rightarrow> string \<Rightarrow> axios_result" where
  "fixedPrice p symbol = Response (JObj [(''price'', p)])"

definition unreachable :: "string \<Rightarrow> axios_result" where
  "unreachable symbol = Rejected ''timeout of 10000ms exceeded''"

definition sampleEnv :: "(string \<Rightarrow> axios_result) \<Rightarrow> string option \<Rightarrow> env" where
  "sampleEnv p we = \<lparr>provider = p, writeError = we,
                      isoTime = ''2024-01-01T00:00:00.000Z'', nowMs = 1704067200000\<rparr>"

definition stockItem1 :: "jsval \<Rightarrow> jsval \<Rightarrow> jsval" where
  "stockItem1 symbol quantity = JObj [(''symbol'', symbol), (''quantity'', quantity)]"

definition sampleBody :: "jsval list \<Rightarrow> jsval" where
  "sampleBody items = JObj [(''stocks'', JArr items)]"


subsection \<open>The specification's view of one request\<close>

text \<open>
  The specification describes the result of a request item by item. The definitions of
  this subsection follow its words (sections 4.2 and 4.4); the theorems below compare
  them with the loop of the handler.
\<close>

text \<open>resolvePrice: one attempt at the provider; a failure names the symbol.\<close>

definition specPrice :: "env \<Rightarrow> string \<Rightarrow> string + jsnum" where
  "specPrice e symbol =
     (case requestPrice e symbol of
        Inr price \<Rightarrow> Inr price
      | Inl error \<Rightarrow> Inl (''Unable to fetch price for '' @ symbol))"

text \<open>An item is invalid when its symbol or its quantity is falsy or its quantity is
  not above zero.\<close>

definition invalidItem :: "jsval \<Rightarrow> bool" where
  "invalidItem x = (\<not> truthy (getProp x ''symbol'') \<or> \<not> truthy (getProp x ''quantity'')
                    \<or> (case toNumber (getProp x ''quantity'') of
                          Inr q \<Rightarrow> le_zero q
                        | Inl error \<Rightarrow> False))"

text \<open>The value of a successfully priced item: price times quantity, rounded to two
  decimal places.\<close>

definition specValue :: "env \<Rightarrow> jsval \<Rightarrow> jsnum option" where
  "specValue e x =
     (if invalidItem x then None
      else case getProp x ''symbol'' of
             JStr s \<Rightarrow>
               (case specPrice e (toUpperCase s) of
                  Inr price \<Rightarrow>
                    (case toNumber (getProp x ''quantity'') of
                       Inr q \<Rightarrow> Some (parseFloatStr (toFixed (fmul price q) 2))
                     | Inl error \<Rightarrow> None)
                | Inl m \<Rightarrow> None)
           | _ \<Rightarrow> None)"

text \<open>The StockResult of an item.\<close>

definition specResult :: "env \<Rightarrow> jsval \<Rightarrow> jsval" where
  "specResult e x =
     (if invalidItem x
      then JObj [(''symbol'', if truthy (getProp x ''symbol'') then getProp x ''symbol''
                              else JStr ''Unknown''),
                 (''error'', JStr ''Invalid symbol or quantity'')]
      else case getProp x ''symbol'' of
             JStr s \<Rightarrow>
               (case specPrice e (toUpperCase s) of
                  Inr price \<Rightarrow>
                    JObj [(''symbol'', JStr (toUpperCase s)),
                          (''quantity'', getProp x ''quantity''),
                          (''currentPrice'', JStr (toFixed price 2)),
                          (''totalValue'', JStr (toFixed (the (specValue e x)) 2))]
                | Inl m \<Rightarrow>
                    JObj [(''symbol'', JStr (toUpperCase s)),
                          (''error'', JStr (''Unable to fetch price: '' @ m))])
           | _ \<Rightarrow> JUndefined)"

text \<open>The sum of the values of the successfully priced items, from left to right.\<close>

definition specTotal :: "env \<Rightarrow> jsval list \<Rightarrow> jsnum" where
  "specTotal e items = foldl fadd (Fin 0) (List.map_filter (specValue e) items)"

text \<open>A stock item of a request: a value other than \<^verbatim>\<open>null\<close> whose symbol is a string
  or falsy (absent, \<^verbatim>\<open>null\<close>, \<^verbatim>\<open>false\<close>, zero) and whose quantity, when it has one,
  can be converted to a number.\<close>

definition stockItem :: "jsval \<Rightarrow> bool" where
  "stockItem x =
     (x \<noteq> JNull \<and> x \<noteq> JUndefined
      \<and> (case getProp x ''symbol'' of JStr s \<Rightarrow> True | v \<Rightarrow> \<not> truthy v)
      \<and> \<not> noPrimitive (getProp x ''quantity''))"

text \<open>A string with exactly two decimal places: an optional minus sign, digits, a
  point, two digits.\<close>

definition dropSign :: "string \<Rightarrow> string" where
  "dropSign s = (case s of c # r \<Rightarrow> if c = CHR ''-'' then r else s | [] \<Rightarrow> s)"

definition unsignedTwoDecimals :: "string \<Rightarrow> bool" where
  "unsignedTwoDecimals t =
     (let ip = take (length t - 3) t; fp = drop (length t - 3) t
      in ip \<noteq> [] \<and> list_all isDigit ip
         \<and> (case fp of [p, d1, d2] \<Rightarrow> p = CHR ''.'' \<and> isDigit d1 \<and> isDigit d2 | _ \<Rightarrow> False))"

definition twoDecimals :: "string \<Rightarrow> bool" where
  "twoDecimals s = unsignedTwoDecimals (dropSign s)"

subsection \<open>JSON data\<close>

text \<open>What may follow a number in a text: nothing that could continue it.\<close>

definition numberEnd :: "string \<Rightarrow> bool" where
  "numberEnd rest =
     (case rest of
        [] \<Rightarrow> True
      | c # t \<Rightarrow> \<not> isDigit c \<and> c \<noteq> CHR ''.'' \<and> c \<noteq> CHR ''e'' \<and> c \<noteq> CHR ''E'')"

text \<open>A finite binary64 value: a rational that rounding leaves as it is.\<close>

definition isDouble :: "jsnum \<Rightarrow> bool" where
  "isDouble x = (case x of Fin r \<Rightarrow> fl r = Fin r | _ \<Rightarrow> False)"

text \<open>
  The values JSON text can carry: no \<^verbatim>\<open>undefined\<close>, every number a finite binary64
  value, every object with its properties in enumeration order.
\<close>

fun wfJson :: "jsval \<Rightarrow> bool"
  and wfElems :: "jsval list \<Rightarrow> bool"
  and wfMembers :: "(string \<times> jsval) list \<Rightarrow> bool" where
  "wfJson JUndefined = False"
| "wfJson JNull = True"
| "wfJson (JBool b) = True"
| "wfJson (JNum x) = isDouble x"
| "wfJson (JStr s) = True"
| "wfJson (JArr xs) = wfElems xs"
| "wfJson (JObj ps) = (objectOf ps = ps \<and> wfMembers ps)"
| "wfElems [] = True"
| "wfElems (x # xs) = (wfJson x \<and> wfElems xs)"
| "wfMembers [] = True"
| "wfMembers ((k, v) # ps) = (wfJson v \<and> wfMembers ps)"

text \<open>The characters a serialized value can start with, and indentation.\<close>

definition valueStart :: "char \<Rightarrow> bool" where
  "valueStart c = (isDigit c \<or> c \<in> {CHR ''-'', CHR 0x22, CHR ''['', CHR ''{'', CHR ''n'', CHR ''t'', CHR ''f''})"

definition spaces :: "string \<Rightarrow> bool" where
  "spaces ind = list_all (\<lambda>c. c = CHR '' '') ind"

text \<open>How deep the parser has to go for a value: one step for the value itself and one
  for each element or property below it.\<close>

fun steps :: "jsval \<Rightarrow> nat"
  and stepsElems :: "jsval list \<Rightarrow> nat"
  and stepsMembers :: "(string \<times> jsval) list \<Rightarrow> nat" where
  "steps (JArr xs) = Suc (stepsElems xs)"
| "steps (JObj ps) = Suc (stepsMembers ps)"
| "steps v = 1"
| "stepsElems [] = 0"
| "stepsElems (x # xs) = Suc (steps x + stepsElems xs)"
| "stepsMembers [] = 0"
| "stepsMembers ((k, v) # ps) = Suc (steps v + stepsMembers ps)"

subsection \<open>Sample requests\<close>

definition allBad :: "jsval list" where
  "allBad = [stockItem1 (JStr ''BAD'') (JNum (Fin 0))]"

definition badResponse :: jsval where
  "badResponse = JObj [(''stocks'', JArr [JObj [(''symbol'', JStr ''BAD''),
                                               (''error'', JStr ''Invalid symbol or quantity'')]]),
                       (''totalPortfolioValue'', JStr ''0.00''),
                       (''timestamp'', JStr ''2024-01-01T00:00:00.000Z'')]"

definition aaplBody :: jsval where
  "aaplBody = sampleBody [stockItem1 (JStr ''aapl'') (JNum (Fin 2))]"

text \<open>A provider that knows two symbols, and a request with a priced item, an invalid
  item, a second priced item and an item whose lookup fails.\<close>

definition quotes :: "string \<Rightarrow> axios_result" where
  "quotes symbol =
     (if symbol = ''AAPL'' then Response (JObj [(''price'', JStr ''150.00'')])
      else if symbol = ''MSFT'' then Response (JObj [(''price'', JStr ''300.50'')])
      else Rejected ''Request failed with status code 404'')"

definition mixedStocks :: "jsval list" where
  "mixedStocks = [stockItem1 (JStr ''aapl'') (JNum (Fin 2)), stockItem1 (JStr ''BAD'') (JNum (Fin 0)),
                  stockItem1 (JStr ''msft'') (JNum (Fin 3)), stockItem1 (JStr ''nope'') (JNum (Fin 1))]"

definition mixedResults :: "jsval list" where
  "mixedResults =
     [JObj [(''symbol'', JStr ''AAPL''), (''quantity'', JNum (Fin 2)),
            (''currentPrice'', JStr ''150.00''), (''totalValue'', JStr ''300.00'')],
      JObj [(''symbol'', JStr ''BAD''), (''error'', JStr ''Invalid symbol or quantity'')],
      JObj [(''symbol'', JStr ''MSFT''), (''quantity'', JNum (Fin 3)),
            (''currentPrice'', JStr ''300.50''), (''totalValue'', JStr ''901.50'')],
      JObj [(''symbol'', JStr ''NOPE''),
            (''error'', JStr ''Unable to fetch price: Unable to fetch price for NOPE'')]]"

definition mixedResponse :: jsval where
  "mixedResponse = JObj [(''stocks'', JArr mixedResults),
                         (''totalPortfolioValue'', JStr ''1201.50''),
                         (''timestamp'', JStr ''2024-01-01T00:00:00.000Z'')]"

text \<open>Requests with an item outside the type: a symbol that is a number, an item that is
  \<^verbatim>\<open>null\<close>, a quantity that is the object \<^verbatim>\<open>{"toString": 1}\<close>.\<close>

definition numberSymbol :: "jsval list" where
  "numberSymbol = [stockItem1 (JStr ''aapl'') (JNum (Fin 2)), stockItem1 (JNum (Fin 123)) (JNum (Fin 1))]"

definition nullItem :: "jsval list" where
  "nullItem = [stockItem1 (JStr ''aapl'') (JNum (Fin 2)), JNull]"

definition objectQuantity :: "jsval list" where
  "objectQuantity = [stockItem1 (JStr ''aapl'') (JNum (Fin 2)),
                     stockItem1 (JStr ''msft'') (JObj [(''toString'', JNum (Fin 1))])]"

definition fiftyNulls :: string where
  "fiftyNulls = ''['' @ concat (replicate 49 ''null, '') @ ''null]''"

text \<open>A first request and the world it leaves; a request whose quantity overflowed.\<close>

definition aaplEntry :: jsval where
  "aaplEntry = JObj [(''stocks'', JArr [JObj [(''symbol'', JStr ''AAPL''), (''quantity'', JNum (Fin 2)),
                                              (''currentPrice'', JStr ''150.00''),
                                              (''totalValue'', JStr ''300.00'')]]),
                     (''totalPortfolioValue'', JStr ''300.00''),
                     (''timestamp'', JStr ''2024-01-01T00:00:00.000Z''),
                     (''id'', JNum (Fin 1704067200000))]"

definition aaplWorld :: world where
  "aaplWorld = snd (portfolio (sampleEnv (fixedPrice (JStr ''150.00'')) None) aaplBody emptyWorld)"

definition overflowBody :: jsval where
  "overflowBody = sampleBody [stockItem1 (JStr ''aapl'') (JNum PosInf)]"

definition overflowResponse :: jsval where
  "overflowResponse =
     JObj [(''stocks'', JArr [JObj [(''symbol'', JStr ''AAPL''), (''quantity'', JNum PosInf),
                                    (''currentPrice'', JStr ''150.00''),
                                    (''totalValue'', JStr ''Infinity'')]]),
           (''totalPortfolioValue'', JStr ''Infinity''),
           (''timestamp'', JStr ''2024-01-01T00:00:00.000Z'')]"

definition overflowEntry :: "jsval \<Rightarrow> jsval" where
  "overflowEntry quantity =
     JObj [(''stocks'', JArr [JObj [(''symbol'', JStr ''AAPL''), (''quantity'', quantity),
                                    (''currentPrice'', JStr ''150.00''),
                                    (''totalValue'', JStr ''Infinity'')]]),
           (''totalPortfolioValue'', JStr ''Infinity''),
           (''timestamp'', JStr ''2024-01-01T00:00:00.000Z''),
           (''id'', JNum (Fin 1704067200000))]"

section \<open>Properties\<close>

subsection \<open>Price lookup\<close>

lemma fst_fetch [simp]:
  "fst (getStockPriceFromTwelveData e symbol w) = requestPrice e symbol"
  by (simp add: getStockPriceFromTwelveData_def Let_def split: sum.splits)

lemma getStockPrice_eq:
  "getStockPrice e symbol w =
     (case requestPrice e symbol of
        Inr price \<Rightarrow> (Inr price, w\<lparr>requests := requests w @ [symbol]\<rparr>)
      | Inl error \<Rightarrow>
          (Inl (Error (''Unable to fetch price for '' @ symbol)),
           w\<lparr>requests := requests w @ [symbol],
              console := console w @ [''TwelveData API error for '' @ symbol @ '': '' @ message error,
                                      ''TwelveData failed for '' @ symbol @ '', trying Alpha Vantage...'']\<rparr>))"
  by (simp add: getStockPrice_def getStockPriceFromTwelveData_def log_def Let_def split: sum.splits)

text \<open>
  C10, as amended. For a provider response whose \<^verbatim>\<open>price\<close> field is falsy (absent,
  \<^verbatim>\<open>null\<close>, \<^verbatim>\<open>false\<close>, the empty string, the number 0 or \<^verbatim>\<open>NaN\<close>),
  \<^verbatim>\<open>getStockPriceFromTwelveData\<close> fails with \<^verbatim>\<open>Invalid response format\<close>, so a price
  given as the number 0 is never returned. A price given as a non-empty string is accepted
  whatever it reads as, and is returned as \<^verbatim>\<open>parseFloat\<close> reads it.
\<close>

theorem fetchPrice_rejects_falsy_price:
  assumes "provider e symbol = Response data"
  shows "(\<not> truthy (getProp data ''price'') \<longrightarrow>
            fst (getStockPriceFromTwelveData e symbol w) = Inl (Error ''Invalid response format''))
       \<and> (\<forall>n. getProp data ''price'' = JNum n \<longrightarrow>
            fst (getStockPriceFromTwelveData e symbol w) \<noteq> Inr (Fin 0))
       \<and> (\<forall>s. truthy data \<longrightarrow> getProp data ''price'' = JStr s \<longrightarrow> s \<noteq> [] \<longrightarrow>
            fst (getStockPriceFromTwelveData e symbol w) = Inr (parseFloatStr s))"
  using assms by (auto simp: requestPrice_def parseFloat_def)

theorem fetchPrice_rejects_falsy_price_witness:
  "provider (sampleEnv (fixedPrice (JNum (Fin 0))) None) ''AAPL''
     = Response (JObj [(''price'', JNum (Fin 0))])
   \<and> \<not> truthy (getProp (JObj [(''price'', JNum (Fin 0))]) ''price'')
   \<and> fst (getStockPriceFromTwelveData (sampleEnv (fixedPrice (JNum (Fin 0))) None) ''AAPL'' emptyWorld)
       = Inl (Error ''Invalid response format'')"
  using fetchPrice_rejects_falsy_price [of "sampleEnv (fixedPrice (JNum (Fin 0))) None" "''AAPL''"
      "JObj [(''price'', JNum (Fin 0))]" emptyWorld]
  by (simp add: sampleEnv_def fixedPrice_def)

text \<open>
  C10 as stated fails: the provider's answer \<^verbatim>\<open>{"price": "0.00"}\<close> carries a non-empty
  string, which is truthy, and the price returned is exactly 0.
\<close>

theorem fetchPrice_zero_counterexample:
  "fst (getStockPriceFromTwelveData (sampleEnv (fixedPrice (JStr ''0.00'')) None) ''AAPL'' emptyWorld)
     = Inr (Fin 0)"
  by code_simp

text \<open>
  C5. \<^verbatim>\<open>getStockPrice\<close> sends exactly one request to the provider. When that request
  succeeds its price is returned and nothing is logged. When it fails, the provider's error
  and the fallback notice are logged, no further request is made, and the error thrown is
  \<^verbatim>\<open>Unable to fetch price for\<close> followed by the symbol.
\<close>

theorem getStockPrice_single_attempt:
  "requests (snd (getStockPrice e symbol w)) = requests w @ [symbol]
   \<and> (case requestPrice e symbol of
        Inr price \<Rightarrow>
          fst (getStockPrice e symbol w) = Inr price
          \<and> console (snd (getStockPrice e symbol w)) = console w
      | Inl error \<Rightarrow>
          fst (getStockPrice e symbol w) = Inl (Error (''Unable to fetch price for '' @ symbol))
          \<and> console (snd (getStockPrice e symbol w))
              = console w @ [''TwelveData API error for '' @ symbol @ '': '' @ message error,
                             ''TwelveData failed for '' @ symbol @ '', trying Alpha Vantage...''])"
  by (simp add: getStockPrice_eq split: sum.splits)

theorem getStockPrice_single_attempt_witness:
  "requests (snd (getStockPrice (sampleEnv unreachable None) ''AAPL'' emptyWorld)) = [''AAPL'']
   \<and> fst (getStockPrice (sampleEnv unreachable None) ''AAPL'' emptyWorld)
       = Inl (Error ''Unable to fetch price for AAPL'')
   \<and> console (snd (getStockPrice (sampleEnv unreachable None) ''AAPL'' emptyWorld))
       = [''TwelveData API error for AAPL: timeout of 10000ms exceeded'',
          ''TwelveData failed for AAPL, trying Alpha Vantage...'']"
  using getStockPrice_single_attempt [of "sampleEnv unreachable None" "''AAPL''" emptyWorld]
  by (simp add: requestPrice_def sampleEnv_def unreachable_def emptyWorld_def)

subsection \<open>The loop over the stocks\<close>



lemma processStock_step:
  assumes "processStock e x st = Inr st'"
  shows "results st' = results st @ [specResult e x]"
    and "total st' = (case specValue e x of Some v \<Rightarrow> fadd (total st) v | None \<Rightarrow> total st)"
    and "historyFile (wld st') = historyFile (wld st)"
    and "writes (wld st') = writes (wld st)"
  using assms
  by (auto simp: processStock_def rejected_def specResult_def specValue_def invalidItem_def
      push_def Let_def getStockPrice_eq specPrice_def
      split: if_splits jsval.splits sum.splits prod.splits bool.splits)

lemma processStock_total:
  assumes "stockItem x"
  shows "\<exists>st'. processStock e x st = Inr st'"
  using assms
  by (auto simp: processStock_def rejected_def toNumber_def stockItem_def Let_def getStockPrice_eq
      split: jsval.splits sum.splits prod.splits bool.splits)

text \<open>Outside that type the loop is left by an exception: a symbol that is truthy but
  not a string has no \<^verbatim>\<open>toUpperCase\<close>.\<close>

lemma processStock_type_error:
  assumes "\<not> invalidItem x" and "x \<noteq> JNull" and "x \<noteq> JUndefined"
    and "\<not> noPrimitive (getProp x ''quantity'')"
    and "\<forall>s. getProp x ''symbol'' \<noteq> JStr s"
  shows "processStock e x st = Inl (TypeError ''symbol.toUpperCase is not a function'')"
  using assms
  by (auto simp: processStock_def rejected_def toNumber_def invalidItem_def Let_def
      split: jsval.splits sum.splits bool.splits)

lemma processStocks_steps:
  assumes "processStocks e items st = Inr st'"
  shows "results st' = results st @ map (specResult e) items
       \<and> total st' = foldl fadd (total st) (List.map_filter (specValue e) items)
       \<and> historyFile (wld st') = historyFile (wld st)
       \<and> writes (wld st') = writes (wld st)"
  using assms
proof (induction items arbitrary: st)
  case Nil
  then show ?case by simp
next
  case (Cons x items)
  from Cons.prems obtain st1 where s1: "processStock e x st = Inr st1"
    and rest: "processStocks e items st1 = Inr st'"
    by (auto split: sum.splits)
  from Cons.IH [OF rest] processStock_step [OF s1] show ?case
    by (auto split: option.splits)
qed

lemma processStocks_total:
  assumes "\<forall>x \<in> set items. stockItem x"
  shows "\<exists>st'. processStocks e items st = Inr st'"
  using assms
proof (induction items arbitrary: st)
  case Nil
  then show ?case by simp
next
  case (Cons x items)
  then obtain st1 where "processStock e x st = Inr st1"
    using processStock_total [of x e st] by auto
  with Cons show ?case by simp
qed

subsection \<open>History store\<close>

lemma loadHistory_cases:
  "loadHistory w =
     (case historyFile w of
        None \<Rightarrow> Inr (JArr [])
      | Some data \<Rightarrow> (case JSON_parse data of Inl err \<Rightarrow> Inr (JArr []) | Inr v \<Rightarrow> Inr v))"
  by (simp add: loadHistory_def tryCatch_def readFile_def split: option.splits sum.splits)

lemma loadHistory_cong:
  "historyFile w = historyFile w' \<Longrightarrow> loadHistory w = loadHistory w'"
  by (simp add: loadHistory_cases)

lemma loadHistory_total: "\<exists>v. loadHistory w = Inr v"
  by (simp add: loadHistory_cases split: option.splits sum.splits)

lemma fst_saveHistory [simp]: "fst (saveHistory e h w) = Inr ()"
  by (simp add: saveHistory_def split: option.splits prod.splits sum.splits)

lemma saveHistory_eq:
  assumes "h \<noteq> JUndefined"
  shows "saveHistory e h w =
           (Inr (),
            case writeError e of
              None \<Rightarrow> w\<lparr>writes := writes w @ [ser [] h], historyFile := Some (ser [] h)\<rparr>
            | Some m \<Rightarrow> w\<lparr>writes := writes w @ [ser [] h],
                           console := console w @ [''Error saving history: '' @ m]\<rparr>)"
  using assms
  by (auto simp: saveHistory_def JSON_stringify_def writeFile_def log_def Let_def
      split: option.splits)

lemma keepLast50_array: "keepLast50 (JArr xs) = JArr (take 50 xs)"
  by (simp add: keepLast50_def)

lemma recordHistory_array:
  assumes "loadHistory w = Inr (JArr h)"
  shows "recordHistory e r w = saveHistory e (JArr (take 50 (makeEntry e r # h))) w"
  using assms by (simp add: recordHistory_def unshift_def keepLast50_array)

lemma recordHistory_not_array:
  assumes "loadHistory w = Inr v" and "\<forall>h. v \<noteq> JArr h"
  shows "recordHistory e r w = (Inl (TypeError ''history.unshift is not a function''), w)"
  using assms by (cases v) (simp_all add: recordHistory_def unshift_def)

lemma fst_recordHistory:
  "fst (recordHistory e r w) =
     (case loadHistory w of
        Inl err \<Rightarrow> Inl err
      | Inr v \<Rightarrow> (case v of
                    JArr h \<Rightarrow> Inr ()
                  | _ \<Rightarrow> Inl (TypeError ''history.unshift is not a function'')))"
  by (simp add: recordHistory_def unshift_def split: sum.splits jsval.splits)

text \<open>
  C6. \<^verbatim>\<open>loadHistory\<close> never throws: it always returns a value. When the history file
  cannot be read, or when its content is not valid JSON, that value is the empty array,
  and \<^verbatim>\<open>GET /api/history\<close> answers 200 with the empty array.
\<close>

theorem loadHistory_never_fails:
  "(\<exists>v. loadHistory w = Inr v)
   \<and> (historyFile w = None \<longrightarrow>
        loadHistory w = Inr (JArr []) \<and> history w = (Http 200 (JArr []), w))
   \<and> (\<forall>data err. historyFile w = Some data \<longrightarrow> JSON_parse data = Inl err \<longrightarrow>
        loadHistory w = Inr (JArr []) \<and> history w = (Http 200 (JArr []), w))"
  by (auto simp: loadHistory_cases history_def split: option.splits sum.splits)

theorem loadHistory_never_fails_witness:
  "historyFile (emptyWorld\<lparr>historyFile := Some ''[1, 2''\<rparr>) = Some ''[1, 2''
   \<and> JSON_parse ''[1, 2'' = Inl (SyntaxError ''Unexpected token in JSON'')
   \<and> loadHistory (emptyWorld\<lparr>historyFile := Some ''[1, 2''\<rparr>) = Inr (JArr [])
   \<and> historyFile emptyWorld = None
   \<and> loadHistory emptyWorld = Inr (JArr [])"
proof -
  have p: "JSON_parse ''[1, 2'' = Inl (SyntaxError ''Unexpected token in JSON'')"
    by code_simp
  have f: "historyFile emptyWorld = None" by (simp add: emptyWorld_def)
  show ?thesis
    using loadHistory_never_fails [of "emptyWorld\<lparr>historyFile := Some ''[1, 2''\<rparr>"]
      loadHistory_never_fails [of emptyWorld] p f
    by simp
qed

text \<open>
  C9. \<^verbatim>\<open>loadHistory\<close> returns whatever the content of the file parses to. When that
  value is not an array (an object, a string, a number, \<^verbatim>\<open>null\<close>) it is returned as it
  is and not replaced by the empty array; the handler of \<^verbatim>\<open>POST /api/portfolio\<close> then
  fails at \<^verbatim>\<open>history.unshift\<close>.
\<close>

theorem loadHistory_returns_parsed_value:
  assumes "historyFile w = Some data" and "JSON_parse data = Inr v"
  shows "loadHistory w = Inr v
       \<and> ((\<forall>h. v \<noteq> JArr h) \<longrightarrow>
            loadHistory w \<noteq> Inr (JArr [])
            \<and> recordHistory e r w = (Inl (TypeError ''history.unshift is not a function''), w))"
proof -
  have lh: "loadHistory w = Inr v" using assms by (simp add: loadHistory_cases)
  then show ?thesis using recordHistory_not_array [OF lh] by auto
qed

theorem loadHistory_returns_parsed_value_witness:
  "historyFile (emptyWorld\<lparr>historyFile := Some ''{}''\<rparr>) = Some ''{}''
   \<and> JSON_parse ''{}'' = Inr (JObj [])
   \<and> loadHistory (emptyWorld\<lparr>historyFile := Some ''{}''\<rparr>) = Inr (JObj [])
   \<and> loadHistory (emptyWorld\<lparr>historyFile := Some ''{}''\<rparr>) \<noteq> Inr (JArr [])"
proof -
  have p: "JSON_parse ''{}'' = Inr (JObj [])" by code_simp
  show ?thesis
    using loadHistory_returns_parsed_value [of "emptyWorld\<lparr>historyFile := Some ''{}''\<rparr>"
        "''{}''" "JObj []"] p
    by simp
qed

subsection \<open>The handler\<close>

lemma portfolio_200:
  assumes "getProp body ''stocks'' = JArr items" and "items \<noteq> []"
    and "processStocks e items \<lparr>results = [], total = Fin 0, wld = w\<rparr> = Inr st"
    and "loadHistory w = Inr (JArr h)"
  shows "portfolio e body w =
           (Http 200 (makeResponse e st),
            snd (saveHistory e (JArr (take 50 (makeEntry e (makeResponse e st) # h))) (wld st)))"
proof -
  from assms(1) have nn: "body \<noteq> JNull" "body \<noteq> JUndefined" by auto
  obtain x xs where items: "items = x # xs" using assms(2) by (cases items) auto
  have hf: "historyFile (wld st) = historyFile w"
    using processStocks_steps [OF assms(3)] by simp
  have lh: "loadHistory (wld st) = Inr (JArr h)"
    using assms(4) loadHistory_cong [OF hf] by simp
  show ?thesis
    using nn assms(1,3) items recordHistory_array [OF lh, of e "makeResponse e st"]
    by (simp add: portfolio_def portfolioBody_def Let_def split: prod.splits sum.splits)
       (metis fst_conv fst_saveHistory snd_conv sum.distinct(1) old.unit.exhaust)
qed

lemma portfolio_200_D:
  assumes "fst (portfolio e body w) = Http 200 resp"
  shows "\<exists>items st h. getProp body ''stocks'' = JArr items \<and> items \<noteq> []
           \<and> processStocks e items \<lparr>results = [], total = Fin 0, wld = w\<rparr> = Inr st
           \<and> loadHistory w = Inr (JArr h) \<and> resp = makeResponse e st"
proof -
  from assms have nn: "body \<noteq> JNull" "body \<noteq> JUndefined"
    by (auto simp: portfolio_def portfolioBody_def)
  from assms nn obtain x xs where stocks: "getProp body ''stocks'' = JArr (x # xs)"
    by (auto simp: portfolio_def portfolioBody_def Let_def split: jsval.splits list.splits)
  from assms nn stocks obtain st where
    loop: "processStocks e (x # xs) \<lparr>results = [], total = Fin 0, wld = w\<rparr> = Inr st"
    by (cases "processStocks e (x # xs) \<lparr>results = [], total = Fin 0, wld = w\<rparr>")
       (auto simp: portfolio_def portfolioBody_def Let_def)
  have hf: "historyFile (wld st) = historyFile w"
    using processStocks_steps [OF loop] by simp
  obtain v where v: "loadHistory (wld st) = Inr v" using loadHistory_total by blast
  have "\<exists>h. v = JArr h"
  proof (rule ccontr)
    assume "\<not> (\<exists>h. v = JArr h)"
    then have "recordHistory e (makeResponse e st) (wld st)
                 = (Inl (TypeError ''history.unshift is not a function''), wld st)"
      using recordHistory_not_array [OF v] by blast
    with assms nn stocks loop show False
      by (simp add: portfolio_def portfolioBody_def Let_def)
  qed
  then obtain h where h: "v = JArr h" by blast
  have lh: "loadHistory w = Inr (JArr h)"
    using v h loadHistory_cong [OF hf] by simp
  from portfolio_200 [OF stocks _ loop lh] assms have "resp = makeResponse e st" by simp
  with stocks loop lh show ?thesis by blast
qed

lemma requestPrice_writeError [simp]: "requestPrice (e\<lparr>writeError := a\<rparr>) s = requestPrice e s"
  by (simp add: requestPrice_def)

lemma getStockPrice_writeError [simp]:
  "getStockPrice (e\<lparr>writeError := a\<rparr>) s w = getStockPrice e s w"
  by (simp add: getStockPrice_eq)

lemma processStock_writeError [simp]:
  "processStock (e\<lparr>writeError := a\<rparr>) x st = processStock e x st"
  unfolding processStock_def getStockPrice_writeError ..

lemma processStocks_writeError [simp]:
  "processStocks (e\<lparr>writeError := a\<rparr>) items st = processStocks e items st"
  by (induction items arbitrary: st) (simp_all split: sum.splits)

lemma fst_portfolioBody:
  "fst (portfolioBody e body w) =
     (if body = JNull \<or> body = JUndefined
      then Inl (TypeError ''Cannot destructure property stocks of req.body'')
      else case getProp body ''stocks'' of
             JArr (item # items) \<Rightarrow>
               (case processStocks e (item # items) \<lparr>results = [], total = Fin 0, wld = w\<rparr> of
                  Inl error \<Rightarrow> Inl (fst error)
                | Inr st \<Rightarrow>
                    (case fst (recordHistory e (makeResponse e st) (wld st)) of
                       Inl error \<Rightarrow> Inl error
                     | Inr u \<Rightarrow> Inr (Http 200 (makeResponse e st))))
           | _ \<Rightarrow> Inr (Http 400 (JObj [(''error'',
                        JStr ''Invalid input. Please provide an array of stocks.'')])))"
  by (simp add: portfolioBody_def Let_def del: processStocks.simps
      split: jsval.splits list.splits sum.splits prod.splits)

lemma fst_portfolio:
  "fst (portfolio e body w) =
     (case fst (portfolioBody e body w) of
        Inr response \<Rightarrow> response
      | Inl error \<Rightarrow> Http 500 (JObj [(''error'', JStr ''Internal server error. Please try again later.'')]))"
  by (simp add: portfolio_def split: prod.splits sum.splits)

lemma response_ignores_writeError:
  "fst (portfolio (e\<lparr>writeError := a\<rparr>) body w) = fst (portfolio e body w)"
proof -
  have m: "makeResponse (e\<lparr>writeError := a\<rparr>) = makeResponse e"
    by (rule ext) (simp add: makeResponse_def)
  have r: "fst (recordHistory (e\<lparr>writeError := a\<rparr>) r w') = fst (recordHistory e r w')" for r w'
    by (simp add: fst_recordHistory)
  show ?thesis
    unfolding fst_portfolio fst_portfolioBody processStocks_writeError m r ..
qed


text \<open>
  C1, as amended. For a list of stock items (values other than \<^verbatim>\<open>null\<close> whose symbol
  is a string or falsy and whose quantity can be converted to a number) the loop ends
  normally with exactly one result per item, in the order of the items, and the result of
  an item is the one the specification gives for that item alone, whatever happened to the
  others: an invalid item or a failed lookup leaves the entries of the other items as they
  are. For a non-empty list, and a history file that is absent, unreadable, corrupt or
  holds an array, the handler answers 200 with these results as \<^verbatim>\<open>stocks\<close>.
\<close>

theorem one_result_per_item:
  assumes "\<forall>x \<in> set items. stockItem x"
  shows "(\<exists>st'. processStocks e items st = Inr st'
                \<and> results st' = results st @ map (specResult e) items)
       \<and> (items \<noteq> [] \<longrightarrow> getProp body ''stocks'' = JArr items
            \<longrightarrow> (\<exists>h. loadHistory w = Inr (JArr h))
            \<longrightarrow> (\<exists>t. fst (portfolio e body w)
                        = Http 200 (JObj [(''stocks'', JArr (map (specResult e) items)),
                                          (''totalPortfolioValue'', JStr t),
                                          (''timestamp'', JStr (isoTime e))])))"
proof (intro conjI impI)
  show "\<exists>st'. processStocks e items st = Inr st'
              \<and> results st' = results st @ map (specResult e) items"
    using processStocks_total [OF assms, of e st] processStocks_steps by blast
next
  assume ne: "items \<noteq> []" and stocks: "getProp body ''stocks'' = JArr items"
    and "\<exists>h. loadHistory w = Inr (JArr h)"
  then obtain h where h: "loadHistory w = Inr (JArr h)" by blast
  obtain st' where loop: "processStocks e items \<lparr>results = [], total = Fin 0, wld = w\<rparr> = Inr st'"
    using processStocks_total [OF assms] by blast
  have "results st' = map (specResult e) items"
    using processStocks_steps [OF loop] by simp
  then show "\<exists>t. fst (portfolio e body w)
                    = Http 200 (JObj [(''stocks'', JArr (map (specResult e) items)),
                                      (''totalPortfolioValue'', JStr t),
                                      (''timestamp'', JStr (isoTime e))])"
    using portfolio_200 [OF stocks ne loop h] by (simp add: makeResponse_def)
qed

lemma mixed_results: "map (specResult (sampleEnv quotes None)) mixedStocks = mixedResults"
  by code_simp

theorem one_result_per_item_witness:
  "list_all stockItem mixedStocks
   \<and> mixedStocks \<noteq> []
   \<and> getProp (sampleBody mixedStocks) ''stocks'' = JArr mixedStocks
   \<and> loadHistory emptyWorld = Inr (JArr [])
   \<and> map (specResult (sampleEnv quotes None)) mixedStocks = mixedResults
   \<and> length mixedResults = length mixedStocks
   \<and> (\<exists>t. fst (portfolio (sampleEnv quotes None) (sampleBody mixedStocks) emptyWorld)
          = Http 200 (JObj [(''stocks'', JArr mixedResults),
                            (''totalPortfolioValue'', JStr t),
                            (''timestamp'', JStr ''2024-01-01T00:00:00.000Z'')]))"
proof -
  have h: "\<forall>x \<in> set mixedStocks. stockItem x"
    by (simp add: mixedStocks_def stockItem_def stockItem1_def)
  have ne: "mixedStocks \<noteq> []" by (simp add: mixedStocks_def)
  have b: "getProp (sampleBody mixedStocks) ''stocks'' = JArr mixedStocks"
    by (simp add: sampleBody_def)
  have l: "loadHistory emptyWorld = Inr (JArr [])"
    by (simp add: loadHistory_cases emptyWorld_def)
  have n: "length mixedResults = length mixedStocks"
    by (simp add: mixedResults_def mixedStocks_def)
  have t: "isoTime (sampleEnv quotes None) = ''2024-01-01T00:00:00.000Z''"
    by (simp add: sampleEnv_def)
  show ?thesis
    using one_result_per_item [OF h, of "sampleEnv quotes None"
        "\<lparr>results = [], total = Fin 0, wld = emptyWorld\<rparr>" "sampleBody mixedStocks" emptyWorld]
      h ne b l n mixed_results t
    by (simp add: list_all_iff)
qed

text \<open>An item on which the loop body throws ends the request: the answer is 500, whatever
  the items before and after it are.\<close>

lemma processStock_no_primitive:
  assumes "x \<noteq> JNull" and "x \<noteq> JUndefined"
    and "truthy (getProp x ''symbol'')" and "truthy (getProp x ''quantity'')"
    and "noPrimitive (getProp x ''quantity'')"
  shows "processStock e x st = Inl (TypeError ''Cannot convert object to primitive value'')"
  using assms by (simp add: processStock_def rejected_def toNumber_def Let_def)

lemma processStocks_append:
  "processStocks e (xs @ ys) st =
     (case processStocks e xs st of
        Inl a \<Rightarrow> Inl a
      | Inr st1 \<Rightarrow> processStocks e ys st1)"
  by (induction xs arbitrary: st) (simp_all split: sum.splits)

lemma request_aborted:
  assumes "getProp body ''stocks'' = JArr (before @ x # after)"
    and "processStocks e before \<lparr>results = [], total = Fin 0, wld = w\<rparr> = Inr st"
    and "processStock e x st = Inl error"
  shows "fst (portfolio e body w)
           = Http 500 (JObj [(''error'', JStr ''Internal server error. Please try again later.'')])"
proof -
  from assms(1) have nn: "body \<noteq> JNull" "body \<noteq> JUndefined" by auto
  have "processStocks e (before @ x # after) \<lparr>results = [], total = Fin 0, wld = w\<rparr>
          = Inl (error, wld st)"
    by (simp add: processStocks_append assms(2,3))
  moreover obtain y ys where "before @ x # after = y # ys" by (cases before) auto
  ultimately show ?thesis using nn assms(1)
    by (simp add: fst_portfolio fst_portfolioBody del: processStocks.simps)
qed

text \<open>
  C1 as stated, for every list that passes the validation, fails: an item outside the
  type above makes the loop throw outside its \<^verbatim>\<open>try\<close>, and the request is answered
  500 although its first item was valid and had been priced. The three lists have a symbol
  that is the number 123 (it has no \<^verbatim>\<open>toUpperCase\<close>, neither in the \<^verbatim>\<open>try\<close> nor in
  the \<^verbatim>\<open>catch\<close>), an item that is \<^verbatim>\<open>null\<close>, and a quantity that is the object
  \<^verbatim>\<open>{"toString": 1}\<close>. The last request has stock items only, and a history file that
  holds an object: \<^verbatim>\<open>history.unshift\<close> throws after the loop.
\<close>

theorem one_result_per_item_counterexample:
  "fst (portfolio (sampleEnv quotes None) (sampleBody numberSymbol) emptyWorld)
     = Http 500 (JObj [(''error'', JStr ''Internal server error. Please try again later.'')])
   \<and> requests (snd (portfolio (sampleEnv quotes None) (sampleBody numberSymbol) emptyWorld)) = [''AAPL'']
   \<and> fst (portfolio (sampleEnv quotes None) (sampleBody nullItem) emptyWorld)
     = Http 500 (JObj [(''error'', JStr ''Internal server error. Please try again later.'')])
   \<and> fst (portfolio (sampleEnv quotes None) (sampleBody objectQuantity) emptyWorld)
     = Http 500 (JObj [(''error'', JStr ''Internal server error. Please try again later.'')])
   \<and> fst (portfolio (sampleEnv quotes None) (sampleBody mixedStocks)
            (emptyWorld\<lparr>historyFile := Some ''{}''\<rparr>))
     = Http 500 (JObj [(''error'', JStr ''Internal server error. Please try again later.'')])"
  by code_simp

text \<open>
  C7. \<^verbatim>\<open>saveHistory\<close> never throws: a failing write is logged and nothing else
  happens. The answer of \<^verbatim>\<open>POST /api/portfolio\<close> does not depend on whether the write
  succeeds. Whenever the handler answers 200, whatever the items were, it has passed the
  new history (the entry made from the response, then the old entries, at most 50) to
  \<^verbatim>\<open>fs.writeFile\<close> exactly once.
\<close>

theorem write_failure_is_swallowed:
  "fst (saveHistory e h w) = Inr ()
   \<and> (\<forall>m. writeError e = Some m \<longrightarrow> h \<noteq> JUndefined \<longrightarrow>
        snd (saveHistory e h w)
          = w\<lparr>writes := writes w @ [ser [] h],
               console := console w @ [''Error saving history: '' @ m]\<rparr>)
   \<and> fst (portfolio (e\<lparr>writeError := a\<rparr>) body w) = fst (portfolio (e\<lparr>writeError := b\<rparr>) body w)
   \<and> (\<forall>resp. fst (portfolio e body w) = Http 200 resp \<longrightarrow>
        (\<exists>h0. loadHistory w = Inr (JArr h0)
              \<and> writes (snd (portfolio e body w))
                  = writes w @ [ser [] (JArr (take 50 (makeEntry e resp # h0)))]))"
proof (intro conjI allI impI)
  show "fst (saveHistory e h w) = Inr ()" by simp
next
  fix m assume "writeError e = Some m" and "h \<noteq> JUndefined"
  then show "snd (saveHistory e h w)
               = w\<lparr>writes := writes w @ [ser [] h],
                    console := console w @ [''Error saving history: '' @ m]\<rparr>"
    by (simp add: saveHistory_eq)
next
  show "fst (portfolio (e\<lparr>writeError := a\<rparr>) body w) = fst (portfolio (e\<lparr>writeError := b\<rparr>) body w)"
    by (simp add: response_ignores_writeError)
next
  fix resp assume ok: "fst (portfolio e body w) = Http 200 resp"
  from portfolio_200_D [OF ok] obtain items st h0 where
    stocks: "getProp body ''stocks'' = JArr items" and ne: "items \<noteq> []"
    and loop: "processStocks e items \<lparr>results = [], total = Fin 0, wld = w\<rparr> = Inr st"
    and lh: "loadHistory w = Inr (JArr h0)" and resp: "resp = makeResponse e st"
    by blast
  have wr: "writes (wld st) = writes w" using processStocks_steps [OF loop] by simp
  have "writes (snd (portfolio e body w)) = writes w @ [ser [] (JArr (take 50 (makeEntry e resp # h0)))]"
    using portfolio_200 [OF stocks ne loop lh] wr resp
    by (simp add: saveHistory_eq split: option.splits)
  with lh show "\<exists>h0. loadHistory w = Inr (JArr h0)
              \<and> writes (snd (portfolio e body w))
                  = writes w @ [ser [] (JArr (take 50 (makeEntry e resp # h0)))]"
    by blast
qed

lemma bad_response:
  "fst (portfolio (sampleEnv unreachable (Some ''EACCES: permission denied'')) (sampleBody allBad) emptyWorld)
     = Http 200 badResponse"
  by code_simp

theorem write_failure_is_swallowed_witness:
  "writeError (sampleEnv unreachable (Some ''EACCES: permission denied'')) = Some ''EACCES: permission denied''
   \<and> fst (portfolio (sampleEnv unreachable (Some ''EACCES: permission denied'')) (sampleBody allBad) emptyWorld)
       = Http 200 badResponse
   \<and> loadHistory emptyWorld = Inr (JArr [])
   \<and> writes (snd (portfolio (sampleEnv unreachable (Some ''EACCES: permission denied''))
                     (sampleBody allBad) emptyWorld))
       = [ser [] (JArr [makeEntry (sampleEnv unreachable (Some ''EACCES: permission denied'')) badResponse])]"
proof -
  let ?e = "sampleEnv unreachable (Some ''EACCES: permission denied'')"
  have l: "loadHistory emptyWorld = Inr (JArr [])"
    by (simp add: loadHistory_cases emptyWorld_def)
  have w: "writes emptyWorld = []" by (simp add: emptyWorld_def)
  have we: "writeError ?e = Some ''EACCES: permission denied''" by (simp add: sampleEnv_def)
  show ?thesis
    using write_failure_is_swallowed [where e = ?e and h = JNull and w = emptyWorld
        and a = None and b = None and body = "sampleBody allBad"]
      bad_response l w we
    by auto
qed

lemma isDigit_digit_char: "0 \<le> d \<Longrightarrow> d < 10 \<Longrightarrow> isDigit (digit_char d)"
  by (simp add: isDigit_def digit_char_def)

lemma digits_nonempty: "digits n \<noteq> []"
  by (subst digits.simps) simp

lemma digits_all: "0 \<le> n \<Longrightarrow> list_all isDigit (digits n)"
proof (induction n rule: digits.induct)
  case (1 n)
  show ?case
  proof (cases "n < 10")
    case True
    with 1 show ?thesis by (subst digits.simps) (simp add: isDigit_digit_char)
  next
    case False
    with 1 show ?thesis by (subst digits.simps) (simp add: isDigit_digit_char)
  qed
qed

lemma minus_not_digit: "isDigit c \<Longrightarrow> c \<noteq> CHR ''-''"
  by (auto simp: isDigit_def)

lemma twoDecimals_split:
  assumes "list_all isDigit m" and "3 \<le> length m" and "s = ''-'' \<or> s = []"
  shows "twoDecimals (s @ take (length m - 2) m @ ''.'' @ drop (length m - 2) m)"
proof -
  let ?t = "take (length m - 2) m @ ''.'' @ drop (length m - 2) m"
  have ip: "take (length ?t - 3) ?t = take (length m - 2) m" using assms(2) by simp
  have fp: "drop (length ?t - 3) ?t = CHR ''.'' # drop (length m - 2) m" using assms(2) by simp
  have "length (drop (length m - 2) m) = 2" using assms(2) by simp
  then obtain d1 d2 where d: "drop (length m - 2) m = [d1, d2]"
    by (metis (no_types, opaque_lifting) One_nat_def Suc_1 length_0_conv length_Suc_conv)
  have "set (drop (length m - 2) m) \<subseteq> set m" by (rule set_drop_subset)
  with assms(1) d have dd: "isDigit d1 \<and> isDigit d2" by (auto simp: list_all_iff)
  have ipd: "list_all isDigit (take (length m - 2) m)"
    using assms(1) by (auto simp: list_all_iff dest: in_set_takeD)
  have ipne: "take (length m - 2) m \<noteq> []" using assms(2) by auto
  have t2: "unsignedTwoDecimals ?t"
    unfolding unsignedTwoDecimals_def Let_def ip fp d using dd ipd ipne by simp
  obtain c r where cr: "take (length m - 2) m = c # r" "isDigit c"
    using ipne ipd by (cases "take (length m - 2) m") auto
  have "c \<noteq> CHR ''-''" using cr(2) by (rule minus_not_digit)
  then have "dropSign ?t = ?t" by (simp add: dropSign_def cr(1))
  moreover have "dropSign (''-'' @ ?t) = ?t" by (simp add: dropSign_def)
  ultimately show ?thesis using t2 assms(3) unfolding twoDecimals_def by auto
qed

lemma toFixed_twoDecimals:
  assumes "\<bar>r\<bar> < 10 ^ 21"
  shows "twoDecimals (toFixed (Fin r) 2)"
proof -
  define n where "n = \<lfloor>\<bar>r\<bar> * 10 ^ 2 + 1 / 2\<rfloor>"
  have n0: "0 \<le> n" by (simp add: n_def)
  define m where "m = (if length (digits n) \<le> 2
                       then replicate (3 - length (digits n)) (CHR ''0'') @ digits n else digits n)"
  have zero: "isDigit (CHR ''0'')" by (simp add: isDigit_def)
  have all: "list_all isDigit m"
    using digits_all [OF n0] zero by (auto simp: m_def list_all_iff)
  have len: "3 \<le> length m"
    using digits_nonempty [of n] by (auto simp: m_def)
  have "toFixed (Fin r) 2
          = (if r < 0 then ''-'' else '''') @ take (length m - 2) m @ ''.'' @ drop (length m - 2) m"
    using assms by (simp add: toFixed_def Let_def m_def n_def)
  then show ?thesis using twoDecimals_split [OF all len] by auto
qed

lemma toFixed_large:
  assumes "10 ^ 21 \<le> \<bar>r\<bar>"
  shows "toFixed (Fin r) f = numToString (Fin r)"
proof -
  from assms have "r \<noteq> 0" by auto
  with assms show ?thesis by (auto simp: toFixed_def numToString_def Let_def)
qed


text \<open>
  C2, as amended. Whenever the handler answers 200, \<^verbatim>\<open>totalPortfolioValue\<close> is
  \<^verbatim>\<open>toFixed(2)\<close> of the sum, taken from left to right in binary64 arithmetic, of the
  values of the successfully priced items; the items that produced an error (invalid, or
  a failed lookup) contribute nothing. The value of a priced item is its price times its
  quantity, rounded to two decimals by \<^verbatim>\<open>toFixed(2)\<close> and read back by
  \<^verbatim>\<open>parseFloat\<close>, and its \<^verbatim>\<open>totalValue\<close> is \<^verbatim>\<open>toFixed(2)\<close> of that value. The
  total is a string with exactly two decimal places whenever the sum is finite and below
  \<open>10^21\<close> in absolute value. From \<open>10^21\<close> on it is the sum as
  \<^verbatim>\<open>Number::toString\<close> prints it, and a sum that is not finite prints as
  \<^verbatim>\<open>Infinity\<close>, \<^verbatim>\<open>-Infinity\<close> or \<^verbatim>\<open>NaN\<close>.
\<close>

theorem total_is_sum_of_values:
  assumes "fst (portfolio e body w) = Http 200 resp"
    and "getProp body ''stocks'' = JArr items"
  shows "getProp resp ''totalPortfolioValue'' = JStr (toFixed (specTotal e items) 2)
       \<and> getProp resp ''stocks'' = JArr (map (specResult e) items)
       \<and> (\<forall>x \<in> set items. \<forall>s p q. \<not> invalidItem x \<longrightarrow> getProp x ''symbol'' = JStr s
             \<longrightarrow> requestPrice e (toUpperCase s) = Inr p
             \<longrightarrow> toNumber (getProp x ''quantity'') = Inr q
             \<longrightarrow> specValue e x = Some (parseFloatStr (toFixed (fmul p q) 2))
                 \<and> getProp (specResult e x) ''totalValue''
                     = JStr (toFixed (parseFloatStr (toFixed (fmul p q) 2)) 2))
       \<and> (\<forall>x \<in> set items. invalidItem x \<longrightarrow> specValue e x = None)
       \<and> (\<forall>x \<in> set items. \<forall>s m. getProp x ''symbol'' = JStr s
             \<longrightarrow> requestPrice e (toUpperCase s) = Inl m \<longrightarrow> specValue e x = None)
       \<and> (\<forall>r. specTotal e items = Fin r \<longrightarrow> \<bar>r\<bar> < 10 ^ 21
             \<longrightarrow> twoDecimals (toFixed (specTotal e items) 2))
       \<and> (\<forall>r. specTotal e items = Fin r \<longrightarrow> 10 ^ 21 \<le> \<bar>r\<bar>
             \<longrightarrow> toFixed (specTotal e items) 2 = numToString (specTotal e items))
       \<and> (specTotal e items = PosInf \<longrightarrow> toFixed (specTotal e items) 2 = ''Infinity'')
       \<and> (specTotal e items = NegInf \<longrightarrow> toFixed (specTotal e items) 2 = ''-Infinity'')
       \<and> (specTotal e items = NaN \<longrightarrow> toFixed (specTotal e items) 2 = ''NaN'')"
proof -
  from portfolio_200_D [OF assms(1)] assms(2) obtain st where
    loop: "processStocks e items \<lparr>results = [], total = Fin 0, wld = w\<rparr> = Inr st"
    and resp: "resp = makeResponse e st"
    by auto
  have st: "results st = map (specResult e) items" "total st = specTotal e items"
    using processStocks_steps [OF loop] by (simp_all add: specTotal_def)
  have a: "getProp resp ''totalPortfolioValue'' = JStr (toFixed (specTotal e items) 2)"
    and b: "getProp resp ''stocks'' = JArr (map (specResult e) items)"
    using resp st by (simp_all add: makeResponse_def)
  have c: "specValue e x = Some (parseFloatStr (toFixed (fmul p q) 2))
           \<and> getProp (specResult e x) ''totalValue''
               = JStr (toFixed (parseFloatStr (toFixed (fmul p q) 2)) 2)"
    if "\<not> invalidItem x" "getProp x ''symbol'' = JStr s" "requestPrice e (toUpperCase s) = Inr p"
      "toNumber (getProp x ''quantity'') = Inr q"
    for x s p q
    using that by (simp add: specValue_def specResult_def specPrice_def)
  have d: "specValue e x = None" if "invalidItem x" for x
    using that by (simp add: specValue_def)
  have f: "specValue e x = None"
    if "getProp x ''symbol'' = JStr s" "requestPrice e (toUpperCase s) = Inl m" for x s m
    using that by (simp add: specValue_def specPrice_def)
  have t: "twoDecimals (toFixed (specTotal e items) 2)"
    if "specTotal e items = Fin r" "\<bar>r\<bar> < 10 ^ 21" for r
    using that toFixed_twoDecimals [of r] by simp
  have u: "toFixed (specTotal e items) 2 = numToString (specTotal e items)"
    if "specTotal e items = Fin r" "10 ^ 21 \<le> \<bar>r\<bar>" for r
    using that toFixed_large [of r] by simp
  have v: "toFixed PosInf 2 = ''Infinity''" "toFixed NegInf 2 = ''-Infinity''" "toFixed NaN 2 = ''NaN''"
    by (simp_all add: toFixed_def numToString_def)
  from a b c d f t u v show ?thesis by (auto simp del: One_nat_def)
qed

lemma mixed_response:
  "fst (portfolio (sampleEnv quotes None) (sampleBody mixedStocks) emptyWorld) = Http 200 mixedResponse"
  by code_simp

lemma mixed_values:
  "map (specValue (sampleEnv quotes None)) mixedStocks = [Some (Fin 300), None, Some (Fin (1803 / 2)), None]"
  by code_simp

lemma mixed_total: "specTotal (sampleEnv quotes None) mixedStocks = Fin (2403 / 2)"
  by code_simp

theorem total_is_sum_of_values_witness:
  "fst (portfolio (sampleEnv quotes None) (sampleBody mixedStocks) emptyWorld) = Http 200 mixedResponse
   \<and> getProp (sampleBody mixedStocks) ''stocks'' = JArr mixedStocks
   \<and> map (specValue (sampleEnv quotes None)) mixedStocks
       = [Some (Fin 300), None, Some (Fin (1803 / 2)), None]
   \<and> specTotal (sampleEnv quotes None) mixedStocks = Fin (2403 / 2)
   \<and> \<bar>2403 / 2 :: rat\<bar> < 10 ^ 21
   \<and> getProp mixedResponse ''totalPortfolioValue'' = JStr (toFixed (Fin (2403 / 2)) 2)
   \<and> toFixed (Fin (2403 / 2)) 2 = ''1201.50''
   \<and> twoDecimals (toFixed (Fin (2403 / 2)) 2)"
proof -
  have b: "getProp (sampleBody mixedStocks) ''stocks'' = JArr mixedStocks"
    by (simp add: sampleBody_def)
  have r: "\<bar>2403 / 2 :: rat\<bar> < 10 ^ 21" by simp
  have p: "toFixed (Fin (2403 / 2)) 2 = ''1201.50''" by code_simp
  note sum = total_is_sum_of_values [OF mixed_response b]
  from sum have g: "getProp mixedResponse ''totalPortfolioValue''
                      = JStr (toFixed (specTotal (sampleEnv quotes None) mixedStocks) 2)"
    by blast
  from sum have q: "twoDecimals (toFixed (specTotal (sampleEnv quotes None) mixedStocks) 2)"
    if "specTotal (sampleEnv quotes None) mixedStocks = Fin r" and "\<bar>r\<bar> < 10 ^ 21" for r
    using that by blast
  from q [OF mixed_total r] have t: "twoDecimals (toFixed (Fin (2403 / 2)) 2)"
    by (simp only: mixed_total)
  from g t mixed_response b mixed_values mixed_total r p show ?thesis by simp
qed

text \<open>
  C2 as stated fails: for one item of quantity \<open>10^21\<close> priced at 1 the sum is
  \<open>10^21\<close>, which \<^verbatim>\<open>toFixed(2)\<close> prints in exponent notation, without decimal places.
\<close>

theorem total_two_decimals_counterexample:
  "fst (portfolio (sampleEnv (fixedPrice (JStr ''1'')) None)
          (sampleBody [stockItem1 (JStr ''a'') (JNum (Fin (10 ^ 21)))]) emptyWorld)
     = Http 200 (JObj [(''stocks'', JArr [JObj [(''symbol'', JStr ''A''),
                                                (''quantity'', JNum (Fin (10 ^ 21))),
                                                (''currentPrice'', JStr ''1.00''),
                                                (''totalValue'', JStr ''1e+21'')]]),
                       (''totalPortfolioValue'', JStr ''1e+21''),
                       (''timestamp'', JStr ''2024-01-01T00:00:00.000Z'')])
   \<and> \<not> twoDecimals ''1e+21''"
  by code_simp

text \<open>
  C3. When the stored history is an array (or the file is absent or corrupt, which loads
  as the empty array), recording a response saves the array that has the new entry at
  index 0, followed by the old entries, cut to its first 50 elements: it never has more
  than 50 elements, and from 50 stored entries the last one is dropped. When the write
  succeeds that array, serialized, is the new content of the file; when it fails the file
  is as before.
\<close>

theorem append_keeps_50:
  assumes "loadHistory w = Inr (JArr h)"
  shows "recordHistory e r w = saveHistory e (JArr (take 50 (makeEntry e r # h))) w
       \<and> take 50 (makeEntry e r # h) ! 0 = makeEntry e r
       \<and> length (take 50 (makeEntry e r # h)) \<le> 50
       \<and> (length h = 50 \<longrightarrow> take 50 (makeEntry e r # h) = makeEntry e r # butlast h)
       \<and> (writeError e = None \<longrightarrow>
             historyFile (snd (recordHistory e r w))
               = Some (ser [] (JArr (take 50 (makeEntry e r # h)))))
       \<and> (writeError e \<noteq> None \<longrightarrow> historyFile (snd (recordHistory e r w)) = historyFile w)"
proof -
  have t: "take 50 (makeEntry e r # h) = makeEntry e r # take 49 h"
    by (simp add: take_Cons')
  have b: "take 49 h = butlast h" if "length h = 50"
    using that by (simp add: butlast_conv_take)
  show ?thesis
    using recordHistory_array [OF assms, of e r] b
    by (auto simp: t saveHistory_eq split: option.splits)
qed

lemma fifty_nulls: "JSON_parse fiftyNulls = Inr (JArr (replicate 50 JNull))"
  by code_simp

theorem append_keeps_50_witness:
  "loadHistory (emptyWorld\<lparr>historyFile := Some fiftyNulls\<rparr>) = Inr (JArr (replicate 50 JNull))
   \<and> length (replicate 50 JNull) = 50
   \<and> take 50 (makeEntry (sampleEnv unreachable None) badResponse # replicate 50 JNull)
       = makeEntry (sampleEnv unreachable None) badResponse # replicate 49 JNull
   \<and> historyFile (snd (recordHistory (sampleEnv unreachable None) badResponse
                          (emptyWorld\<lparr>historyFile := Some fiftyNulls\<rparr>)))
       = Some (ser [] (JArr (makeEntry (sampleEnv unreachable None) badResponse # replicate 49 JNull)))"
proof -
  have l: "loadHistory (emptyWorld\<lparr>historyFile := Some fiftyNulls\<rparr>) = Inr (JArr (replicate 50 JNull))"
    by (simp add: loadHistory_cases fifty_nulls)
  have we: "writeError (sampleEnv unreachable None) = None" by (simp add: sampleEnv_def)
  have tk: "take 50 (makeEntry (sampleEnv unreachable None) badResponse # replicate 50 JNull)
              = makeEntry (sampleEnv unreachable None) badResponse # replicate 49 JNull"
    by (simp add: take_Cons')
  from append_keeps_50 [OF l, of "sampleEnv unreachable None" badResponse] we
  have "historyFile (snd (recordHistory (sampleEnv unreachable None) badResponse
                          (emptyWorld\<lparr>historyFile := Some fiftyNulls\<rparr>)))
       = Some (ser [] (JArr (take 50 (makeEntry (sampleEnv unreachable None) badResponse
                                        # replicate 50 JNull))))"
    by blast
  with l tk show ?thesis by (simp del: ser.simps)
qed

subsection \<open>Reading back what was written: digits\<close>

text \<open>The decimal digits of an integer read back as that integer.\<close>

lemma of_char_digit_char: "0 \<le> d \<Longrightarrow> d < 10 \<Longrightarrow> (of_char (digit_char d) :: int) = 48 + d"
  by (simp add: digit_char_def)

lemma digitsVal_snoc: "digitsVal (xs @ [c]) = 10 * digitsVal xs + (of_char c - 48)"
  by (simp add: digitsVal_def)

lemma digitsVal_digits: "0 \<le> n \<Longrightarrow> digitsVal (digits n) = n"
proof (induction n rule: digits.induct)
  case (1 n)
  show ?case
  proof (cases "n < 10")
    case True
    with 1 show ?thesis
      by (subst digits.simps) (simp add: digitsVal_def of_char_digit_char)
  next
    case False
    with 1 have "digitsVal (digits (n div 10)) = n div 10" by simp
    with False 1 show ?thesis
      by (subst digits.simps) (simp add: digitsVal_snoc of_char_digit_char)
  qed
qed

lemma digit_char_zero: "0 < d \<Longrightarrow> d < 10 \<Longrightarrow> digit_char d \<noteq> CHR ''0''"
proof
  assume a: "0 < d" "d < 10" and "digit_char d = CHR ''0''"
  then have "(of_char (digit_char d) :: int) = of_char (CHR ''0'')" by simp
  with a show False by (simp add: of_char_digit_char)
qed

declare digits_nonempty [simp]

lemma hd_digits: "0 < n \<Longrightarrow> hd (digits n) \<noteq> CHR ''0''"
proof (induction n rule: digits.induct)
  case (1 n)
  show ?case
  proof (cases "n < 10")
    case True
    with 1 show ?thesis by (subst digits.simps) (simp add: digit_char_zero)
  next
    case False
    with 1 have "hd (digits (n div 10)) \<noteq> CHR ''0''" by simp
    with False show ?thesis by (subst digits.simps) simp
  qed
qed

lemma digitsVal_append:
  "digitsVal (xs @ ys) = digitsVal xs * 10 ^ length ys + digitsVal ys"
proof (induction ys rule: rev_induct)
  case Nil
  then show ?case by (simp add: digitsVal_def)
next
  case (snoc y ys)
  have "digitsVal (xs @ ys @ [y]) = 10 * digitsVal (xs @ ys) + (of_char y - 48)"
    using digitsVal_snoc [of "xs @ ys" y] by simp
  with snoc show ?case by (simp add: digitsVal_snoc algebra_simps)
qed

lemma digitsVal_zeros: "digitsVal (replicate k (CHR ''0'')) = 0"
proof (induction k)
  case 0
  then show ?case by (simp add: digitsVal_def)
next
  case (Suc k)
  have "replicate (Suc k) (CHR ''0'') = replicate k (CHR ''0'') @ [CHR ''0'']"
    by (simp add: replicate_append_same)
  then show ?case using Suc by (simp only: digitsVal_snoc) simp
qed

lemma takeWhile_digits:
  assumes "list_all isDigit ds" and "rest = [] \<or> \<not> isDigit (hd rest)"
  shows "takeWhile isDigit (ds @ rest) = ds" and "dropWhile isDigit (ds @ rest) = rest"
proof -
  have r: "takeWhile isDigit rest = []" "dropWhile isDigit rest = rest"
    using assms(2) by (cases rest; simp)+
  from assms(1) show "takeWhile isDigit (ds @ rest) = ds"
    by (simp add: takeWhile_append2 list_all_iff r)
  from assms(1) show "dropWhile isDigit (ds @ rest) = rest"
    by (simp add: dropWhile_append2 list_all_iff r)
qed

subsection \<open>Reading back what was written: string literals\<close>

text \<open>Every character is escaped in a way that the parser undoes.\<close>

lemma char_eqI: "(of_char c :: int) = of_char d \<Longrightarrow> c = d"
  by simp

lemma hexVal_hexDigit: "0 \<le> d \<Longrightarrow> d < 16 \<Longrightarrow> hexVal (hexDigit d) = Some d"
  by (simp add: hexVal_def hexDigit_def Let_def)

lemma hexVal_zero: "hexVal (CHR ''0'') = Some 0"
  by (simp add: hexVal_def)

lemma radixVal_escape:
  assumes "0 \<le> n" and "n < 256"
  shows "radixVal 16 [CHR ''0'', CHR ''0'', hexDigit (n div 16), hexDigit (n mod 16)] = Some n"
proof -
  have d: "0 \<le> n div 16" "n div 16 < 16" using assms by presburger+
  have m: "0 \<le> n mod 16" "n mod 16 < 16" by presburger+
  have h: "hexVal (hexDigit (n div 16)) = Some (n div 16)"
    using d by (rule hexVal_hexDigit)
  have l: "hexVal (hexDigit (n mod 16)) = Some (n mod 16)"
    using m by (rule hexVal_hexDigit)
  show ?thesis using d m by (simp add: radixVal_def hexVal_zero h l)
qed

lemma parseChars_quoteChar:
  "parseChars (quoteChar c @ t) = consChar c (parseChars t)"
proof -
  let ?n = "of_char c :: int"
  have "?n mod 256 = ?n" by (rule of_char_mod_256)
  then have n: "0 \<le> ?n" "?n < 256"
    by (metis pos_mod_sign zero_less_numeral, metis pos_mod_bound zero_less_numeral)
  consider "?n = 8" | "?n = 9" | "?n = 10" | "?n = 12" | "?n = 13" | "?n = 34" | "?n = 92"
    | "?n < 32" "?n \<notin> {8, 9, 10, 12, 13}" | "32 \<le> ?n" "?n \<noteq> 34" "?n \<noteq> 92"
    by fastforce
  then show ?thesis
  proof cases
    case 1
    then have "c = CHR 0x08" by (intro char_eqI) simp
    then show ?thesis by (simp add: quoteChar_def unescape_def)
  next
    case 2
    then have "c = CHR 0x09" by (intro char_eqI) simp
    then show ?thesis by (simp add: quoteChar_def unescape_def)
  next
    case 3
    then have "c = CHR 0x0A" by (intro char_eqI) simp
    then show ?thesis by (simp add: quoteChar_def unescape_def)
  next
    case 4
    then have "c = CHR 0x0C" by (intro char_eqI) simp
    then show ?thesis by (simp add: quoteChar_def unescape_def)
  next
    case 5
    then have "c = CHR 0x0D" by (intro char_eqI) simp
    then show ?thesis by (simp add: quoteChar_def unescape_def)
  next
    case 6
    then have "c = CHR 0x22" by (intro char_eqI) simp
    then show ?thesis by (simp add: quoteChar_def unescape_def)
  next
    case 7
    then have "c = CHR 0x5C" by (intro char_eqI) simp
    then show ?thesis by (simp add: quoteChar_def unescape_def)
  next
    case 8
    have q: "quoteChar c = [CHR 0x5C, CHR ''u'', CHR ''0'', CHR ''0'',
                            hexDigit (?n div 16), hexDigit (?n mod 16)]"
      using 8 by (simp add: quoteChar_def Let_def)
    have "char_of ?n = c" by simp
    then show ?thesis
      unfolding q using radixVal_escape [OF n] by simp
  next
    case 9
    then have "c \<noteq> CHR 0x22" "c \<noteq> CHR 0x5C" by auto
    with 9 show ?thesis by (simp add: quoteChar_def Let_def)
  qed
qed

lemma parseChars_quoted:
  "parseChars (concat (map quoteChar s) @ CHR 0x22 # rest) = Some (s, rest)"
  by (induction s) (simp_all add: parseChars_quoteChar consChar_def)

lemma parseChars_quoteJSONString:
  "quoteJSONString s @ rest = CHR 0x22 # concat (map quoteChar s) @ CHR 0x22 # rest"
  by (simp add: quoteJSONString_def)

subsection \<open>Reading back what was written: binary64 values\<close>

text \<open>A finite binary64 value is an integer multiple of \<open>2^-1074\<close>.\<close>

lemma pow10_powi: "pow10 e = 10 powi e"
  by (simp add: pow10_def power_int_def power_one_over inverse_eq_divide)

lemma pow2_powi: "pow2 e = 2 powi e"
  by (simp add: pow2_def power_int_def power_one_over inverse_eq_divide)

lemma pow10_pos [simp]: "0 < pow10 e" by (simp add: pow10_powi)
lemma pow2_pos [simp]: "0 < pow2 e" by (simp add: pow2_powi)
lemma pow10_add: "pow10 (x + y) = pow10 x * pow10 y" by (simp add: pow10_powi power_int_add)
lemma pow2_add: "pow2 (x + y) = pow2 x * pow2 y" by (simp add: pow2_powi power_int_add)
lemma pow10_nat: "pow10 (int k) = 10 ^ k" by (simp add: pow10_def)
lemma pow2_nat: "pow2 (int k) = 2 ^ k" by (simp add: pow2_def)
lemma pow10_0 [simp]: "pow10 0 = 1" by (simp add: pow10_def)

lemma round_half_even_nonneg: "0 \<le> q \<Longrightarrow> 0 \<le> round_half_even q"
  by (auto simp: round_half_even_def Let_def)

lemma fl_form:
  assumes "r \<noteq> 0" and "fl r = Fin v"
  shows "\<exists>m e. - 1074 \<le> e \<and> 0 \<le> m
           \<and> v = (if r < 0 then - (of_int m * pow2 e) else of_int m * pow2 e)"
proof -
  let ?e = "max (ilog2 \<bar>r\<bar> - 52) (- 1074)"
  let ?m = "round_half_even (\<bar>r\<bar> / pow2 ?e)"
  have "0 \<le> \<bar>r\<bar> / pow2 ?e" by (simp add: zero_le_divide_iff less_imp_le)
  then have m: "0 \<le> ?m" by (rule round_half_even_nonneg)
  have e: "- 1074 \<le> ?e" by simp
  from assms have "v = (if r < 0 then - (of_int ?m * pow2 ?e) else of_int ?m * pow2 ?e)"
    by (simp add: fl_def Let_def split: if_splits)
  with m e show ?thesis by blast
qed

lemma fl_nonpos:
  assumes "r \<le> 0" and "fl r = Fin v"
  shows "v \<le> 0"
proof (cases "r = 0")
  case True
  with assms show ?thesis by (simp add: fl_def)
next
  case False
  with assms(1) have neg: "r < 0" by simp
  from fl_form [OF False assms(2)] neg obtain m e where
    m: "0 \<le> m" and v: "v = - (of_int m * pow2 e)" by auto
  from m have "0 \<le> of_int m * pow2 e"
    by (intro mult_nonneg_nonneg) (simp_all add: less_imp_le)
  with v show ?thesis by simp
qed

lemma fl_neg:
  "fl (- r) = (case fl r of Fin v \<Rightarrow> Fin (- v) | PosInf \<Rightarrow> NegInf | NegInf \<Rightarrow> PosInf | NaN \<Rightarrow> NaN)"
  by (cases "r = 0"; cases "r < 0") (auto simp: fl_def Let_def)

lemma double_grid:
  assumes "fl a = Fin a"
  shows "\<exists>j. a = of_int j * pow2 (- 1074)"
proof (cases "a = 0")
  case True
  then show ?thesis by (intro exI [of _ 0]) simp
next
  case False
  from fl_form [OF False assms] obtain m e where e: "- 1074 \<le> e"
    and a: "a = (if a < 0 then - (of_int m * pow2 e) else of_int m * pow2 e)"
    by blast
  have "pow2 e = pow2 (int (nat (e + 1074))) * pow2 (- 1074)"
    using e by (simp add: pow2_add [symmetric])
  then have p: "pow2 e = of_int (2 ^ nat (e + 1074)) * pow2 (- 1074)"
    by (simp only: pow2_nat of_int_power of_int_numeral)
  show ?thesis
  proof (cases "a < 0")
    case True
    with a have "a = - (of_int m * pow2 e)" by simp
    then have "a = of_int (- (m * 2 ^ nat (e + 1074))) * pow2 (- 1074)"
      by (subst (asm) p) (simp only: of_int_minus of_int_mult mult.assoc mult_minus_left)
    then show ?thesis by blast
  next
    case False
    with a have "a = of_int m * pow2 e" by simp
    then have "a = of_int (m * 2 ^ nat (e + 1074)) * pow2 (- 1074)"
      by (subst (asm) p) (simp only: of_int_mult mult.assoc)
    then show ?thesis by blast
  qed
qed

lemma grid_decimal:
  assumes "0 \<le> N" and "a = of_int j * pow2 (- N)"
  shows "a / pow10 (- N) = of_int (j * 5 ^ nat N)"
proof -
  have "pow10 (- N) * of_int (5 ^ nat N) = pow2 (- N)"
  proof -
    have "(10::rat) powi (- N) * 5 powi N = (10 powi (- N) * 10 powi N) * 2 powi (- N)"
      by (simp add: power_int_minus power_int_mult_distrib [of 2 5 N, simplified] field_simps)
    also have "\<dots> = 2 powi (- N)" by (simp add: power_int_minus)
    finally show ?thesis using assms(1) by (simp add: pow10_powi pow2_powi power_int_def)
  qed
  then have "of_int j * pow2 (- N) = of_int (j * 5 ^ nat N) * pow10 (- N)"
    by (simp add: mult.commute mult.left_commute)
  with assms(2) show ?thesis by (simp add: pow10_pos [THEN less_imp_neq, symmetric])
qed

text \<open>The digits chosen by \<^verbatim>\<open>Number::toString\<close> denote a decimal value that rounds to
  the number printed.\<close>

lemma fl_pos_arg:
  assumes "0 < a" and "fl (of_int s * pow10 x) = Fin a"
  shows "0 < s"
proof (rule ccontr)
  assume "\<not> 0 < s"
  then have "of_int s * pow10 x \<le> 0"
    by (simp add: mult_le_0_iff less_imp_le)
  from fl_nonpos [OF this assms(2)] assms(1) show False by simp
qed

lemma candidate_rep:
  assumes "0 < a" and "1 \<le> k" and "candidate a n k = Some (s, x)"
  shows "0 < s \<and> fl (of_int s * pow10 x) = Fin a"
proof -
  define u where "u = pow10 (n - int k)"
  define lo where "lo = \<lfloor>a / u\<rfloor>"
  have hi: "of_int (10 ^ (k - 1)) * pow10 (n - int k + 1) = of_int (10 ^ k) * u"
  proof -
    obtain j where k: "k = Suc j" using assms(2) by (cases k) auto
    have "pow10 (n - int k + 1) = 10 * pow10 (n - int k) * pow10 0"
      by (simp add: pow10_add) (simp add: pow10_def)
    then show ?thesis by (simp add: k u_def)
  qed
  have "(s = lo \<and> x = n - int k \<and> fl (of_int lo * u) = Fin a)
      \<or> (s = lo + 1 \<and> x = n - int k \<and> fl (of_int (lo + 1) * u) = Fin a)
      \<or> (lo + 1 = 10 ^ k \<and> s = 10 ^ (k - 1) \<and> x = n - int k + 1
          \<and> fl (of_int (lo + 1) * u) = Fin a)"
    using assms(3) unfolding candidate_def Let_def lo_def u_def
    by (auto split: if_splits)
  then have "fl (of_int s * pow10 x) = Fin a"
  proof (elim disjE conjE)
    assume "s = lo" "x = n - int k" "fl (of_int lo * u) = Fin a"
    then show ?thesis by (simp add: u_def)
  next
    assume "s = lo + 1" "x = n - int k" "fl (of_int (lo + 1) * u) = Fin a"
    then show ?thesis by (simp add: u_def)
  next
    assume t: "lo + 1 = 10 ^ k" "s = 10 ^ (k - 1)" "x = n - int k + 1"
      and f: "fl (of_int (lo + 1) * u) = Fin a"
    have "of_int s * pow10 x = of_int (lo + 1) * u"
      unfolding t(2,3) hi t(1) ..
    with f show ?thesis by simp
  qed
  with fl_pos_arg [OF assms(1)] show ?thesis by blast
qed

lemma fallback_rep:
  assumes "0 < a" and "fl a = Fin a"
  shows "0 < \<lfloor>a / pow10 (- 1074)\<rfloor> \<and> fl (of_int \<lfloor>a / pow10 (- 1074)\<rfloor> * pow10 (- 1074)) = Fin a"
proof -
  from double_grid [OF assms(2)] obtain j where j: "a = of_int j * pow2 (- 1074)" by blast
  have "a / pow10 (- 1074) = of_int (j * 5 ^ nat 1074)"
    by (rule grid_decimal [OF _ j]) simp
  then obtain J :: int where J: "a / pow10 (- 1074) = of_int J" by blast
  then have f: "\<lfloor>a / pow10 (- 1074)\<rfloor> = J" by simp
  have nz: "pow10 (- 1074) \<noteq> 0" using pow10_pos [of "- 1074"] by (metis less_irrefl)
  from J nz have a: "of_int J * pow10 (- 1074) = a" by (metis nonzero_divide_eq_eq)
  with assms(2) have "fl (of_int J * pow10 (- 1074)) = Fin a" by simp
  with fl_pos_arg [OF assms(1)] f show ?thesis by simp
qed

lemma search_rep:
  assumes "0 < a" and "fl a = Fin a"
  shows "1 \<le> k \<Longrightarrow> search a n fuel k = (s, x) \<Longrightarrow> 0 < s \<and> fl (of_int s * pow10 x) = Fin a"
proof (induction fuel arbitrary: k)
  case 0
  then show ?case using fallback_rep [OF assms] by (simp del: of_int_floor_cancel)
next
  case (Suc fuel)
  show ?case
  proof (cases "candidate a n k")
    case None
    with Suc.prems have "search a n fuel (Suc k) = (s, x)" by simp
    then show ?thesis by (intro Suc.IH) simp_all
  next
    case (Some c)
    with Suc.prems have "candidate a n k = Some (s, x)" by simp
    then show ?thesis using candidate_rep [OF assms(1) Suc.prems(1)] by blast
  qed
qed

lemma shortest_rep:
  assumes "0 < a" and "fl a = Fin a" and "shortest a = (s, x)"
  shows "0 < s \<and> fl (of_int s * pow10 x) = Fin a"
  using search_rep [OF assms(1,2), of 1 "dexp a" 17 s x] assms(3)
  by (simp add: shortest_def)

subsection \<open>Reading back what was written: number literals\<close>

lemma isDigit_zero [simp]: "isDigit (CHR ''0'')" by (simp add: isDigit_def)
lemma not_isDigit_chars [simp]:
  "\<not> isDigit (CHR ''.'')" "\<not> isDigit (CHR ''e'')" "\<not> isDigit (CHR ''E'')"
  "\<not> isDigit (CHR ''-'')" "\<not> isDigit (CHR ''+'')"
  by (simp_all add: isDigit_def)

lemma numberEnd_digit: "numberEnd rest \<Longrightarrow> rest = [] \<or> \<not> isDigit (hd rest)"
  by (cases rest) (simp_all add: numberEnd_def)

lemma jsonExponent_none:
  "numberEnd rest \<Longrightarrow> jsonExponent rest = Some (0, rest)"
  by (cases rest) (simp_all add: jsonExponent_def numberEnd_def)

lemma scan_digits:
  assumes "0 \<le> m" and "numberEnd rest"
  shows "takeWhile isDigit (digits m @ rest) = digits m"
    and "dropWhile isDigit (digits m @ rest) = rest"
    and "digitsVal (digits m) = m"
  using takeWhile_digits [OF digits_all [OF assms(1)] numberEnd_digit [OF assms(2)]]
    digitsVal_digits [OF assms(1)]
  by simp_all

lemma jsonExponent_part:
  assumes "numberEnd rest"
  shows "jsonExponent (exponent_part e @ rest) = Some (e, rest)"
proof (cases "e < 0")
  case True
  then have "0 \<le> - e" by simp
  from scan_digits [OF this assms] True show ?thesis
    by (simp add: jsonExponent_def exponent_part_def Let_def)
next
  case False
  then have "0 \<le> e" by simp
  from scan_digits [OF this assms] False show ?thesis
    by (simp add: jsonExponent_def exponent_part_def Let_def)
qed

text \<open>The scanner on a digit string followed by something that is not a digit.\<close>

lemma jsonUnsigned_int:
  assumes "list_all isDigit ip" and "ip \<noteq> []" and "hd ip = CHR ''0'' \<longrightarrow> length ip = 1"
    and "jsonExponent r = Some (ex, rest)" and "r = [] \<or> (\<not> isDigit (hd r) \<and> hd r \<noteq> CHR ''.'')"
  shows "jsonUnsigned (ip @ r) = Some (of_int (digitsVal ip) * pow10 ex, rest)"
proof -
  have r: "r = [] \<or> \<not> isDigit (hd r)" using assms(5) by auto
  have tk: "takeWhile isDigit (ip @ r) = ip" and dr: "dropWhile isDigit (ip @ r) = r"
    using takeWhile_digits [OF assms(1) r] by simp_all
  have lz: "\<not> (hd ip = CHR ''0'' \<and> 1 < length ip)" using assms(3) by auto
  show ?thesis
    unfolding jsonUnsigned_def Let_def tk dr
    using assms(2,4,5) lz by (cases r) (auto simp: )
qed

lemma jsonUnsigned_frac:
  assumes "list_all isDigit ip" and "ip \<noteq> []" and "hd ip = CHR ''0'' \<longrightarrow> length ip = 1"
    and "list_all isDigit fp" and "fp \<noteq> []"
    and "jsonExponent r = Some (ex, rest)" and "r = [] \<or> \<not> isDigit (hd r)"
  shows "jsonUnsigned (ip @ ''.'' @ fp @ r)
           = Some (of_int (digitsVal (ip @ fp)) * pow10 (ex - int (length fp)), rest)"
proof -
  have tk: "takeWhile isDigit (ip @ ''.'' @ fp @ r) = ip"
    and dr: "dropWhile isDigit (ip @ ''.'' @ fp @ r) = ''.'' @ fp @ r"
    using takeWhile_digits [OF assms(1), of "''.'' @ fp @ r"] by simp_all
  have tk2: "takeWhile isDigit (fp @ r) = fp" and dr2: "dropWhile isDigit (fp @ r) = r"
    using takeWhile_digits [OF assms(4,7)] by simp_all
  have lz: "\<not> (hd ip = CHR ''0'' \<and> 1 < length ip)" using assms(3) by auto
  show ?thesis
    unfolding jsonUnsigned_def Let_def tk dr
    using assms(2,5,6) lz by (simp add: tk2 dr2)
qed

text \<open>The three layouts of \<^verbatim>\<open>Number::toString\<close> (integer, fraction, exponent) are JSON
  numbers with the value of their digits.\<close>

lemma numberEnd_int: "numberEnd rest \<Longrightarrow> rest = [] \<or> (\<not> isDigit (hd rest) \<and> hd rest \<noteq> CHR ''.'')"
  by (cases rest) (simp_all add: numberEnd_def)

lemma exponent_part_head:
  "exponent_part e @ rest = CHR ''e'' # tl (exponent_part e @ rest)"
  by (simp add: exponent_part_def)

lemma pow10_nonneg_exp: "0 \<le> x \<Longrightarrow> pow10 x = 10 ^ nat x"
  by (simp add: pow10_def)

lemma jsonUnsigned_format:
  assumes "0 < s" and "numberEnd rest"
  shows "jsonUnsigned (format_digits (s, x) @ rest) = Some (of_int s * pow10 x, rest)"
proof -
  define ds where "ds = digits s"
  define k where "k = int (length ds)"
  define n where "n = x + k"
  have all: "list_all isDigit ds" unfolding ds_def using assms(1) by (intro digits_all) simp
  have ne: "ds \<noteq> []" by (simp add: ds_def)
  have hd0: "hd ds \<noteq> CHR ''0''" unfolding ds_def by (rule hd_digits [OF assms(1)])
  have val: "digitsVal ds = s" unfolding ds_def using assms(1) by (intro digitsVal_digits) simp
  have k1: "1 \<le> k" using ne by (cases ds) (simp_all add: k_def)
  have x: "x = n - k" by (simp add: n_def)
  note e0 = jsonExponent_none [OF assms(2)]
  note ee = jsonExponent_part [OF assms(2)]
  have rd: "rest = [] \<or> \<not> isDigit (hd rest)" by (rule numberEnd_digit [OF assms(2)])
  have er: "exponent_part e @ rest = [] \<or> (\<not> isDigit (hd (exponent_part e @ rest))
              \<and> hd (exponent_part e @ rest) \<noteq> CHR ''.'')" for e
    by (simp add: exponent_part_def)
  consider (plain) "k \<le> n" "n \<le> 21"
    | (point) "0 < n" "n < k" "n \<le> 21"
    | (small) "- 6 < n" "n \<le> 0"
    | (exp1) "21 < n \<or> n \<le> - 6" "k = 1"
    | (expk) "21 < n \<or> n \<le> - 6" "1 < k"
    using k1 by linarith
  then show ?thesis
  proof cases
    case plain
    let ?z = "replicate (nat (n - k)) (CHR ''0'')"
    have f: "format_digits (s, x) @ rest = (ds @ ?z) @ rest"
      using plain by (simp add: format_digits_def Let_def n_def k_def ds_def)
    have a: "list_all isDigit (ds @ ?z)" using all by (auto simp: list_all_iff)
    have h: "hd (ds @ ?z) = CHR ''0'' \<longrightarrow> length (ds @ ?z) = 1" using ne hd0 by simp
    have v: "of_int (digitsVal (ds @ ?z)) * pow10 0 = of_int s * pow10 x"
      using plain by (simp add: digitsVal_append digitsVal_zeros val x pow10_nonneg_exp)
    have "jsonUnsigned ((ds @ ?z) @ rest) = Some (of_int (digitsVal (ds @ ?z)) * pow10 0, rest)"
      using ne by (intro jsonUnsigned_int [OF a _ h e0 numberEnd_int [OF assms(2)]]) simp
    then show ?thesis unfolding f v .
  next
    case point
    let ?ip = "take (nat n) ds" and ?fp = "drop (nat n) ds"
    have f: "format_digits (s, x) @ rest = ?ip @ ''.'' @ ?fp @ rest"
      using point by (simp add: format_digits_def Let_def n_def k_def ds_def)
    have a: "list_all isDigit ?ip" "list_all isDigit ?fp"
      using all by (auto simp: list_all_iff dest: in_set_takeD in_set_dropD)
    have ipne: "?ip \<noteq> []" using point ne by simp
    have fpne: "?fp \<noteq> []" using point by (simp add: k_def)
    have "hd ?ip = hd ds" using point by (simp add: hd_take)
    then have h: "hd ?ip = CHR ''0'' \<longrightarrow> length ?ip = 1" using hd0 by simp
    have v: "of_int (digitsVal (?ip @ ?fp)) * pow10 (0 - int (length ?fp)) = of_int s * pow10 x"
    proof -
      have "0 - int (length ?fp) = x" using point by (simp add: k_def x)
      then show ?thesis by (simp only: append_take_drop_id val)
    qed
    have "jsonUnsigned (?ip @ ''.'' @ ?fp @ rest)
            = Some (of_int (digitsVal (?ip @ ?fp)) * pow10 (0 - int (length ?fp)), rest)"
      by (rule jsonUnsigned_frac [OF a(1) ipne h a(2) fpne e0 rd])
    then show ?thesis unfolding f v .
  next
    case small
    let ?z = "replicate (nat (- n)) (CHR ''0'')"
    have f: "format_digits (s, x) @ rest = ''0'' @ ''.'' @ (?z @ ds) @ rest"
      using small k1 by (simp add: format_digits_def Let_def n_def k_def ds_def)
    have a: "list_all isDigit ''0''" "list_all isDigit (?z @ ds)"
      using all by (auto simp: list_all_iff)
    have v: "of_int (digitsVal (''0'' @ (?z @ ds))) * pow10 (0 - int (length (?z @ ds)))
               = of_int s * pow10 x"
    proof -
      have "''0'' @ ?z = replicate (Suc (nat (- n))) (CHR ''0'')" by simp
      then have "digitsVal ((''0'' @ ?z) @ ds) = s"
        by (simp only: digitsVal_append digitsVal_zeros val mult_zero_left add_0)
      then have d: "digitsVal (''0'' @ (?z @ ds)) = s" by simp
      have "0 - int (length (?z @ ds)) = x" using small by (simp add: k_def x)
      then show ?thesis by (simp only: d)
    qed
    have "jsonUnsigned (''0'' @ ''.'' @ (?z @ ds) @ rest)
            = Some (of_int (digitsVal (''0'' @ (?z @ ds))) * pow10 (0 - int (length (?z @ ds))), rest)"
      using ne by (intro jsonUnsigned_frac [OF a(1) _ _ a(2) _ e0 rd]) simp_all
    then show ?thesis unfolding f v .
  next
    case exp1
    have f: "format_digits (s, x) @ rest = ds @ (exponent_part (n - 1) @ rest)"
      using exp1 k1 by (auto simp: format_digits_def Let_def n_def k_def ds_def)
    have h: "hd ds = CHR ''0'' \<longrightarrow> length ds = 1" using hd0 by simp
    have v: "of_int (digitsVal ds) * pow10 (n - 1) = of_int s * pow10 x"
      using exp1 by (simp add: val x)
    have "jsonUnsigned (ds @ (exponent_part (n - 1) @ rest)) = Some (of_int (digitsVal ds) * pow10 (n - 1), rest)"
      by (rule jsonUnsigned_int [OF all ne h ee er])
    then show ?thesis unfolding f v .
  next
    case expk
    let ?ip = "take 1 ds" and ?fp = "drop 1 ds"
    have f: "format_digits (s, x) @ rest = ?ip @ ''.'' @ ?fp @ (exponent_part (n - 1) @ rest)"
      using expk k1 by (auto simp: format_digits_def Let_def n_def k_def ds_def)
    have a: "list_all isDigit ?ip" "list_all isDigit ?fp"
      using all by (auto simp: list_all_iff dest: in_set_takeD in_set_dropD)
    have ipne: "?ip \<noteq> []" using ne by simp
    have fpne: "?fp \<noteq> []" using expk by (simp add: k_def)
    have "hd ?ip = hd ds" by (simp add: hd_take)
    then have h: "hd ?ip = CHR ''0'' \<longrightarrow> length ?ip = 1" using hd0 by simp
    have v: "of_int (digitsVal (?ip @ ?fp)) * pow10 (n - 1 - int (length ?fp)) = of_int s * pow10 x"
    proof -
      have "n - 1 - int (length ?fp) = x" using expk by (simp add: k_def x)
      then show ?thesis by (simp only: append_take_drop_id val)
    qed
    have re: "exponent_part (n - 1) @ rest = [] \<or> \<not> isDigit (hd (exponent_part (n - 1) @ rest))"
      using er by blast
    have "jsonUnsigned (?ip @ ''.'' @ ?fp @ (exponent_part (n - 1) @ rest))
            = Some (of_int (digitsVal (?ip @ ?fp)) * pow10 (n - 1 - int (length ?fp)), rest)"
      by (rule jsonUnsigned_frac [OF a(1) ipne h a(2) fpne ee re])
    then show ?thesis unfolding f v .
  qed
qed

text \<open>A finite number printed and read is the same number.\<close>

lemma jsonUnsigned_Some_hd:
  assumes "jsonUnsigned u = Some r"
  shows "\<exists>c t. u = c # t \<and> isDigit c"
proof -
  from assms have "takeWhile isDigit u \<noteq> []"
    by (auto simp: jsonUnsigned_def Let_def split: if_splits)
  then show ?thesis by (cases u) (auto split: if_splits)
qed

lemma isDouble_neg: "fl r = Fin r \<Longrightarrow> fl (- r) = Fin (- r)"
  by (simp add: fl_neg)

lemma parseNumber_numToString:
  assumes "isDouble x" and "numberEnd rest"
  shows "parseNumber (numToString x @ rest) = Some (x, rest)"
proof -
  from assms(1) obtain r where x: "x = Fin r" and d: "fl r = Fin r"
    by (cases x) (simp_all add: isDouble_def)
  consider (zero) "r = 0" | (pos) "0 < r" | (neg) "r < 0" by linarith
  then show ?thesis
  proof cases
    case zero
    have "jsonUnsigned (''0'' @ rest) = Some (of_int (digitsVal ''0'') * pow10 0, rest)"
      by (rule jsonUnsigned_int [OF _ _ _ jsonExponent_none [OF assms(2)] numberEnd_int [OF assms(2)]])
         simp_all
    then have "jsonUnsigned (CHR ''0'' # rest) = Some (0, rest)"
      by (simp add: digitsVal_def)
    then show ?thesis
      using zero by (simp add: x numToString_def parseNumber_def mvNumber_def fl_def)
  next
    case pos
    obtain s e where sh: "shortest r = (s, e)" by (cases "shortest r")
    from shortest_rep [OF pos d sh] have s: "0 < s" and v: "fl (of_int s * pow10 e) = Fin r"
      by simp_all
    have u: "jsonUnsigned (format_digits (s, e) @ rest) = Some (of_int s * pow10 e, rest)"
      by (rule jsonUnsigned_format [OF s assms(2)])
    from jsonUnsigned_Some_hd [OF u] obtain c t where
      ct: "format_digits (s, e) @ rest = c # t" and c: "isDigit c" by blast
    then have "c \<noteq> CHR ''-''" by auto
    then have "parseNumber (format_digits (s, e) @ rest) = Some (Fin r, rest)"
      using u v unfolding ct by (simp add: parseNumber_def mvNumber_def)
    then show ?thesis using pos by (simp add: x numToString_def sh)
  next
    case neg
    then have pos: "0 < - r" by simp
    have d': "fl (- r) = Fin (- r)" by (rule isDouble_neg [OF d])
    obtain s e where sh: "shortest (- r) = (s, e)" by (cases "shortest (- r)")
    from shortest_rep [OF pos d' sh] have s: "0 < s" and v: "fl (of_int s * pow10 e) = Fin (- r)"
      by simp_all
    have u: "jsonUnsigned (format_digits (s, e) @ rest) = Some (of_int s * pow10 e, rest)"
      by (rule jsonUnsigned_format [OF s assms(2)])
    have "fl (- (of_int s * pow10 e)) = Fin r" using v by (simp add: fl_neg)
    then have "parseNumber (CHR ''-'' # format_digits (s, e) @ rest) = Some (Fin r, rest)"
      using u by (simp add: parseNumber_def mvNumber_def)
    then show ?thesis using neg by (simp add: x numToString_def sh)
  qed
qed

lemma numToString_head:
  assumes "isDouble x"
  shows "\<exists>c t. numToString x = c # t \<and> (isDigit c \<or> c = CHR ''-'')"
proof -
  have "numberEnd []" by (simp add: numberEnd_def)
  from parseNumber_numToString [OF assms this]
  have p: "parseNumber (numToString x) = Some (x, [])" by simp
  then obtain v r where u: "jsonUnsigned (snd (case numToString x of
                        c # t \<Rightarrow> if c = CHR ''-'' then (True, t) else (False, numToString x)
                      | [] \<Rightarrow> (False, numToString x))) = Some (v, r)"
    by (auto simp: parseNumber_def Let_def split: prod.splits option.splits)
  show ?thesis
  proof (cases "numToString x")
    case Nil
    with u jsonUnsigned_Some_hd show ?thesis by fastforce
  next
    case (Cons c t)
    show ?thesis
    proof (cases "c = CHR ''-''")
      case True
      with Cons show ?thesis by simp
    next
      case False
      with u Cons jsonUnsigned_Some_hd [of "c # t"] show ?thesis by auto
    qed
  qed
qed

subsection \<open>Reading back what was written: layout\<close>

text \<open>Line breaks and indentation are white space to the parser; a serialized value
  starts with a character that is not.\<close>

lemma digit_not_ws: "isDigit c \<Longrightarrow> \<not> isJsonWs c"
  unfolding isDigit_def isJsonWs_def by auto

lemma digit_not_bracket: "isDigit c \<Longrightarrow> c \<noteq> CHR '']'' \<and> c \<noteq> CHR ''}''"
  unfolding isDigit_def by auto

lemma valueStart_facts:
  assumes "valueStart c"
  shows "\<not> isJsonWs c" and "c \<noteq> CHR '']''" and "c \<noteq> CHR ''}''"
proof -
  from assms consider "isDigit c"
    | "c \<in> {CHR ''-'', CHR 0x22, CHR ''['', CHR ''{'', CHR ''n'', CHR ''t'', CHR ''f''}"
    unfolding valueStart_def by blast
  then have "\<not> isJsonWs c \<and> c \<noteq> CHR '']'' \<and> c \<noteq> CHR ''}''"
  proof cases
    case 1
    then show ?thesis using digit_not_ws digit_not_bracket by blast
  next
    case 2
    then show ?thesis by (auto simp: isJsonWs_def)
  qed
  then show "\<not> isJsonWs c" and "c \<noteq> CHR '']''" and "c \<noteq> CHR ''}''" by simp_all
qed

lemma isJsonWs_simps [simp]:
  "isJsonWs (CHR 0x0A)" "isJsonWs (CHR '' '')"
  "\<not> isJsonWs (CHR '','')" "\<not> isJsonWs (CHR '':'')" "\<not> isJsonWs (CHR '']'')"
  "\<not> isJsonWs (CHR ''}'')" "\<not> isJsonWs (CHR 0x22)"
  by (simp_all add: isJsonWs_def)

lemma skipWs_nonws [simp]: "\<not> isJsonWs c \<Longrightarrow> skipWs (c # t) = c # t"
  by (simp add: skipWs_def)

lemma skipWs_ws [simp]: "isJsonWs c \<Longrightarrow> skipWs (c # t) = skipWs t"
  by (simp add: skipWs_def)

lemma spaces_ws: "spaces ind \<Longrightarrow> list_all isJsonWs ind"
  unfolding spaces_def by (induction ind) simp_all

lemma skipWs_indent:
  assumes "spaces ind" and "\<not> isJsonWs c"
  shows "skipWs (ind @ c # t) = c # t"
  using spaces_ws [OF assms(1)] assms(2)
  by (simp add: skipWs_def dropWhile_append2 list_all_iff)

lemma spaces_more: "spaces ind \<Longrightarrow> spaces (ind @ ''  '')"
  by (simp add: spaces_def)

lemma numberEnd_simps [simp]:
  "numberEnd (CHR '','' # t)" "numberEnd (CHR 0x0A # t)" "numberEnd []"
  by (simp_all add: numberEnd_def isDigit_def)

lemma quote_head: "quoteJSONString s = CHR 0x22 # concat (map quoteChar s) @ [CHR 0x22]"
  by (simp add: quoteJSONString_def)

lemma wf_not_undefined: "wfJson v \<Longrightarrow> v \<noteq> JUndefined"
  by auto

lemma serElems_map: "serElems ind xs = map (ser ind) xs"
  by (induction xs) simp_all

lemma ser_head: "wfJson v \<Longrightarrow> \<exists>c t. ser ind v = c # t \<and> valueStart c"
proof (cases v)
  case (JNum x)
  assume "wfJson v"
  with JNum have d: "isDouble x" by simp
  then obtain r where x: "x = Fin r" by (cases x) (simp_all add: isDouble_def)
  from numToString_head [OF d] show ?thesis using JNum x
    by (auto simp: valueStart_def)
qed (auto simp: valueStart_def quote_head split: list.splits)

text \<open>The values that are not arrays or objects.\<close>

lemma join_Cons: "join sep (x # ts) = x @ concat (map ((@) sep) ts)"
  by (induction ts arbitrary: x) simp_all

lemma wfElems_iff: "wfElems xs = list_all wfJson xs"
  by (induction xs) simp_all

lemma wfMembers_iff: "wfMembers ps = list_all (\<lambda>p. wfJson (snd p)) ps"
  by (induction ps) auto

lemma serMembers_map:
  "wfMembers ps \<Longrightarrow>
   serMembers ind ps = map (\<lambda>p. quoteJSONString (fst p) @ '': '' @ ser ind (snd p)) ps"
  by (induction ps) auto

lemma parseValue_number:
  assumes "isDigit c \<or> c = CHR ''-''"
  shows "parseValue (Suc n) (c # t) =
         (case parseNumber (c # t) of None \<Rightarrow> None | Some (x, r) \<Rightarrow> Some (JNum x, r))"
proof -
  from assms have "c \<noteq> CHR ''['' \<and> c \<noteq> CHR ''{'' \<and> c \<noteq> CHR 0x22 \<and> c \<noteq> CHR ''t''
                   \<and> c \<noteq> CHR ''f'' \<and> c \<noteq> CHR ''n''"
    by (auto simp: isDigit_def)
  then show ?thesis by auto
qed

lemma parseValue_scalar:
  assumes "wfJson v" and "\<And>xs. v \<noteq> JArr xs" and "\<And>ps. v \<noteq> JObj ps" and "numberEnd rest"
  shows "parseValue (Suc n) (ser ind v @ rest) = Some (v, rest)"
proof (cases v)
  case (JNum x)
  with assms(1) have d: "isDouble x" by simp
  then obtain r where x: "x = Fin r" by (cases x) (simp_all add: isDouble_def)
  from numToString_head [OF d] obtain c t
    where h: "numToString x = c # t" and c: "isDigit c \<or> c = CHR ''-''" by blast
  have "parseValue (Suc n) (c # (t @ rest)) =
        (case parseNumber (c # (t @ rest)) of None \<Rightarrow> None | Some (x, r) \<Rightarrow> Some (JNum x, r))"
    by (rule parseValue_number [OF c])
  moreover have "c # (t @ rest) = numToString x @ rest" by (simp add: h)
  ultimately have "parseValue (Suc n) (numToString x @ rest) =
        (case parseNumber (numToString x @ rest) of None \<Rightarrow> None | Some (x, r) \<Rightarrow> Some (JNum x, r))"
    by simp
  then show ?thesis
    unfolding parseNumber_numToString [OF d assms(4)] using JNum x by simp
next
  case (JStr s)
  then show ?thesis by (simp add: quote_head parseChars_quoted)
qed (use assms in auto)

text \<open>The elements of an array, given that each of them is read back.\<close>

lemma stepsMembers_Cons: "stepsMembers (p # ps) = Suc (steps (snd p) + stepsMembers ps)"
  by (cases p) simp

lemma skipWs_line:
  assumes "spaces ind" and "\<not> isJsonWs c"
  shows "skipWs (CHR 0x0A # ind @ c # t) = c # t"
  using skipWs_indent [OF assms] by simp

lemma skipWs_value:
  assumes "spaces ind" and "wfJson v"
  shows "skipWs (CHR 0x0A # ind @ ser i v @ t) = ser i v @ t"
proof -
  from ser_head [OF assms(2)] obtain c u where h: "ser i v = c # u" and c: "valueStart c"
    by blast
  from skipWs_line [OF assms(1) valueStart_facts(1) [OF c]] show ?thesis by (simp add: h)
qed

lemma parseElems_round:
  assumes "\<forall>x\<in>set (x0 # xs). \<forall>i n r. spaces i \<longrightarrow> steps x \<le> n \<longrightarrow> numberEnd r \<longrightarrow>
             parseValue n (ser i x @ r) = Some (x, r)"
    and "list_all wfJson (x0 # xs)"
    and "spaces ind" and "spaces ind0"
    and "stepsElems (x0 # xs) \<le> n"
  shows "parseElems n (ser ind x0 @ concat (map ((@) (CHR '','' # CHR 0x0A # ind)) (map (ser ind) xs))
                       @ CHR 0x0A # ind0 @ CHR '']'' # rest) = Some (x0 # xs, rest)"
  using assms
proof (induction xs arbitrary: x0 n)
  case Nil
  from Nil.prems(5) obtain m where n: "n = Suc m" and m: "steps x0 \<le> m" by (cases n) auto
  define T where "T = CHR 0x0A # ind0 @ CHR '']'' # rest"
  have "numberEnd T" by (simp add: T_def)
  with Nil.prems(1,3) m have 1: "parseValue m (ser ind x0 @ T) = Some (x0, T)" by simp
  have 2: "skipWs T = CHR '']'' # rest"
    unfolding T_def using skipWs_line [OF Nil.prems(4)] by simp
  have "parseElems (Suc m) (ser ind x0 @ T) = Some ([x0], rest)"
    by (simp add: 1 2)
  then show ?case by (simp add: n T_def)
next
  case (Cons y ys)
  from Cons.prems(5) obtain m where n: "n = Suc m" and m: "steps x0 \<le> m"
    and m': "stepsElems (y # ys) \<le> m" by (cases n) auto
  define U where "U = ser ind y @ concat (map ((@) (CHR '','' # CHR 0x0A # ind)) (map (ser ind) ys))
                       @ CHR 0x0A # ind0 @ CHR '']'' # rest"
  define T where "T = CHR '','' # CHR 0x0A # ind @ U"
  have "numberEnd T" by (simp add: T_def)
  with Cons.prems(1,3) m have 1: "parseValue m (ser ind x0 @ T) = Some (x0, T)" by simp
  from Cons.prems(2) have wy: "wfJson y" by simp
  have 2: "skipWs (CHR 0x0A # ind @ U) = U"
    unfolding U_def using skipWs_value [OF Cons.prems(3) wy] by simp
  have 3: "parseElems m U = Some (y # ys, rest)"
    unfolding U_def using Cons.prems m' by (intro Cons.IH) simp_all
  have P: "parseElems (Suc m) (ser ind x0 @ T) = Some (x0 # y # ys, rest)"
    by (simp add: 1) (simp add: T_def 2 3)
  have E: "ser ind x0 @ concat (map ((@) (CHR '','' # CHR 0x0A # ind)) (map (ser ind) (y # ys)))
                       @ CHR 0x0A # ind0 @ CHR '']'' # rest = ser ind x0 @ T"
    unfolding T_def U_def by (simp only: list.map concat.simps append.simps append_assoc)
  show ?case unfolding n E by (rule P)
qed

text \<open>The properties of an object, given that each of their values is read back.\<close>

lemma skipWs_ser:
  assumes "wfJson v"
  shows "skipWs (ser i v @ t) = ser i v @ t"
proof -
  from ser_head [OF assms] obtain c u where h: "ser i v = c # u" and c: "valueStart c"
    by blast
  from valueStart_facts(1) [OF c] show ?thesis by (simp add: h)
qed

lemma parseMembers_one:
  assumes v: "parseValue m (ser ind v @ T) = Some (v, T)" and w: "wfJson v"
  shows "parseMembers (Suc m) (quoteJSONString k @ '': '' @ ser ind v @ T) =
         (case skipWs T of
            [] \<Rightarrow> None
          | e # t \<Rightarrow>
              if e = CHR '','' then
                (case parseMembers m (skipWs t) of
                   None \<Rightarrow> None
                 | Some (ms, r) \<Rightarrow> Some ((k, v) # ms, r))
              else if e = CHR ''}'' then Some ([(k, v)], t)
              else None)"
proof -
  have "parseChars (concat (map quoteChar k) @ CHR 0x22 # CHR '':'' # CHR '' '' # ser ind v @ T) =
        Some (k, CHR '':'' # CHR '' '' # ser ind v @ T)"
    by (rule parseChars_quoted)
  then show ?thesis by (simp add: quote_head skipWs_ser [OF w] v)
qed

lemma parseMembers_round:
  assumes "\<forall>p\<in>set (p0 # ps). \<forall>i n r. spaces i \<longrightarrow> steps (snd p) \<le> n \<longrightarrow> numberEnd r \<longrightarrow>
             parseValue n (ser i (snd p) @ r) = Some (snd p, r)"
    and "list_all (\<lambda>p. wfJson (snd p)) (p0 # ps)"
    and "spaces ind" and "spaces ind0"
    and "stepsMembers (p0 # ps) \<le> n"
  shows "parseMembers n ((quoteJSONString (fst p0) @ '': '' @ ser ind (snd p0))
                         @ concat (map ((@) (CHR '','' # CHR 0x0A # ind))
                                       (map (\<lambda>p. quoteJSONString (fst p) @ '': '' @ ser ind (snd p)) ps))
                         @ CHR 0x0A # ind0 @ CHR ''}'' # rest) = Some (p0 # ps, rest)"
  using assms
proof (induction ps arbitrary: p0 n)
  case Nil
  from Nil.prems(5) obtain m where n: "n = Suc m" and m: "steps (snd p0) \<le> m"
    by (cases n) (auto simp: stepsMembers_Cons)
  define T where "T = CHR 0x0A # ind0 @ CHR ''}'' # rest"
  have "numberEnd T" by (simp add: T_def)
  with Nil.prems(1,3) m have 1: "parseValue m (ser ind (snd p0) @ T) = Some (snd p0, T)" by simp
  have 2: "skipWs T = CHR ''}'' # rest"
    unfolding T_def using skipWs_line [OF Nil.prems(4)] by simp
  from Nil.prems(2) have w: "wfJson (snd p0)" by simp
  have P: "parseMembers (Suc m) (quoteJSONString (fst p0) @ '': '' @ ser ind (snd p0) @ T) = Some ([p0], rest)"
    unfolding parseMembers_one [OF 1 w] by (simp add: 2)
  have E: "(quoteJSONString (fst p0) @ '': '' @ ser ind (snd p0))
                         @ concat (map ((@) (CHR '','' # CHR 0x0A # ind))
                                       (map (\<lambda>p. quoteJSONString (fst p) @ '': '' @ ser ind (snd p)) []))
                         @ CHR 0x0A # ind0 @ CHR ''}'' # rest
           = quoteJSONString (fst p0) @ '': '' @ ser ind (snd p0) @ T"
    unfolding T_def by (simp only: list.map concat.simps append.simps append_assoc)
  show ?case unfolding n E by (rule P)
next
  case (Cons q qs)
  from Cons.prems(5) obtain m where n: "n = Suc m" and m: "steps (snd p0) \<le> m"
    and m': "stepsMembers (q # qs) \<le> m" by (cases n) (auto simp: stepsMembers_Cons)
  define U where "U = (quoteJSONString (fst q) @ '': '' @ ser ind (snd q))
                         @ concat (map ((@) (CHR '','' # CHR 0x0A # ind))
                                       (map (\<lambda>p. quoteJSONString (fst p) @ '': '' @ ser ind (snd p)) qs))
                         @ CHR 0x0A # ind0 @ CHR ''}'' # rest"
  define T where "T = CHR '','' # CHR 0x0A # ind @ U"
  have "numberEnd T" by (simp add: T_def)
  with Cons.prems(1,3) m have 1: "parseValue m (ser ind (snd p0) @ T) = Some (snd p0, T)" by simp
  have "skipWs (CHR 0x0A # ind @ CHR 0x22 # t) = CHR 0x22 # t" for t
    using skipWs_line [OF Cons.prems(3)] by simp
  then have 2: "skipWs (CHR 0x0A # ind @ U) = U"
    unfolding U_def by (simp add: quote_head)
  have 3: "parseMembers m U = Some (q # qs, rest)"
    unfolding U_def using Cons.prems m' by (intro Cons.IH) simp_all
  from Cons.prems(2) have w: "wfJson (snd p0)" by simp
  have P: "parseMembers (Suc m) (quoteJSONString (fst p0) @ '': '' @ ser ind (snd p0) @ T)
           = Some (p0 # q # qs, rest)"
    unfolding parseMembers_one [OF 1 w] by (simp add: T_def 2 3)
  have E: "(quoteJSONString (fst p0) @ '': '' @ ser ind (snd p0))
                         @ concat (map ((@) (CHR '','' # CHR 0x0A # ind))
                                       (map (\<lambda>p. quoteJSONString (fst p) @ '': '' @ ser ind (snd p)) (q # qs)))
                         @ CHR 0x0A # ind0 @ CHR ''}'' # rest
           = quoteJSONString (fst p0) @ '': '' @ ser ind (snd p0) @ T"
    unfolding T_def U_def by (simp only: list.map concat.simps append.simps append_assoc)
  show ?case unfolding n E by (rule P)
qed

subsection \<open>Reading back what was written: values\<close>

lemma ser_array:
  "ser ind (JArr (x # xs)) @ rest =
   CHR ''['' # CHR 0x0A # (ind @ ''  '') @
     (ser (ind @ ''  '') x
      @ concat (map ((@) (CHR '','' # CHR 0x0A # (ind @ ''  ''))) (map (ser (ind @ ''  '')) xs))
      @ CHR 0x0A # ind @ CHR '']'' # rest)"
  by (simp add: serElems_map join_Cons del: join.simps)

lemma ser_object:
  assumes "wfMembers (p # ps)"
  shows "ser ind (JObj (p # ps)) @ rest =
   CHR ''{'' # CHR 0x0A # (ind @ ''  '') @
     ((quoteJSONString (fst p) @ '': '' @ ser (ind @ ''  '') (snd p))
      @ concat (map ((@) (CHR '','' # CHR 0x0A # (ind @ ''  '')))
                    (map (\<lambda>p. quoteJSONString (fst p) @ '': '' @ ser (ind @ ''  '') (snd p)) ps))
      @ CHR 0x0A # ind @ CHR ''}'' # rest)"
  unfolding ser.simps serMembers_map [OF assms]
  by (simp add: join_Cons del: join.simps)

lemma parseValue_array:
  "parseValue (Suc n) (CHR ''['' # t) =
     (case skipWs t of
        [] \<Rightarrow> None
      | d # t' \<Rightarrow>
          if d = CHR '']'' then Some (JArr [], t')
          else (case parseElems n (d # t') of
                  None \<Rightarrow> None
                | Some (xs, r) \<Rightarrow> Some (JArr xs, r)))"
  by simp

lemma parseValue_object:
  "parseValue (Suc n) (CHR ''{'' # t) =
     (case skipWs t of
        [] \<Rightarrow> None
      | d # t' \<Rightarrow>
          if d = CHR ''}'' then Some (JObj [], t')
          else (case parseMembers n (d # t') of
                  None \<Rightarrow> None
                | Some (ms, r) \<Rightarrow> Some (JObj (objectOf ms), r)))"
  by simp

lemma parseValue_round:
  "wfJson v \<Longrightarrow> spaces ind \<Longrightarrow> steps v \<le> n \<Longrightarrow> numberEnd rest \<Longrightarrow>
   parseValue n (ser ind v @ rest) = Some (v, rest)"
proof (induction v arbitrary: ind n rest)
  case (JArr xs)
  from JArr.prems(3) obtain m where n: "n = Suc m" and m: "stepsElems xs \<le> m"
    by (cases n) auto
  show ?case
  proof (cases xs)
    case Nil
    then show ?thesis by (simp add: n)
  next
    case (Cons x0 ys)
    have sp: "spaces (ind @ ''  '')" by (rule spaces_more [OF JArr.prems(2)])
    from JArr.prems(1) have wf: "list_all wfJson (x0 # ys)" by (simp add: Cons wfElems_iff)
    then have wx: "wfJson x0" by simp
    define U where "U = ser (ind @ ''  '') x0
      @ concat (map ((@) (CHR '','' # CHR 0x0A # (ind @ ''  ''))) (map (ser (ind @ ''  '')) ys))
      @ CHR 0x0A # ind @ CHR '']'' # rest"
    have rt: "\<forall>x\<in>set (x0 # ys). \<forall>i n r. spaces i \<longrightarrow> steps x \<le> n \<longrightarrow> numberEnd r \<longrightarrow>
               parseValue n (ser i x @ r) = Some (x, r)"
    proof (intro ballI allI impI)
      fix x i k r
      assume x: "x \<in> set (x0 # ys)" and "spaces i" "steps x \<le> k" "numberEnd r"
      moreover from wf x have "wfJson x" by (auto simp: list_all_iff)
      moreover from x have "x \<in> set xs" by (simp add: Cons)
      ultimately show "parseValue k (ser i x @ r) = Some (x, r)" by (intro JArr.IH)
    qed
    from m have "stepsElems (x0 # ys) \<le> m" by (simp add: Cons)
    from parseElems_round [OF rt wf sp JArr.prems(2) this]
    have 1: "parseElems m U = Some (x0 # ys, rest)" by (simp only: U_def)
    from ser_head [OF wx] obtain c u where h: "ser (ind @ ''  '') x0 = c # u"
      and c: "valueStart c" by blast
    obtain u' where U: "U = c # u'" by (simp add: U_def h)
    have 2: "skipWs (CHR 0x0A # (ind @ ''  '') @ U) = c # u'"
      unfolding U by (rule skipWs_line [OF sp valueStart_facts(1) [OF c]])
    have "parseValue (Suc m) (CHR ''['' # CHR 0x0A # (ind @ ''  '') @ U) = Some (JArr (x0 # ys), rest)"
      unfolding parseValue_array 2 using 1 valueStart_facts(2) [OF c] by (simp add: U)
    then show ?thesis unfolding n Cons ser_array U_def .
  qed
next
  case (JObj ps)
  from JObj.prems(3) obtain m where n: "n = Suc m" and m: "stepsMembers ps \<le> m"
    by (cases n) auto
  from JObj.prems(1) have o: "objectOf ps = ps" and wm: "wfMembers ps" by simp_all
  show ?case
  proof (cases ps)
    case Nil
    then show ?thesis by (simp add: n)
  next
    case (Cons p0 qs)
    have sp: "spaces (ind @ ''  '')" by (rule spaces_more [OF JObj.prems(2)])
    from wm have wf: "list_all (\<lambda>p. wfJson (snd p)) (p0 # qs)" by (simp add: Cons wfMembers_iff)
    define U where "U = (quoteJSONString (fst p0) @ '': '' @ ser (ind @ ''  '') (snd p0))
      @ concat (map ((@) (CHR '','' # CHR 0x0A # (ind @ ''  '')))
                    (map (\<lambda>p. quoteJSONString (fst p) @ '': '' @ ser (ind @ ''  '') (snd p)) qs))
      @ CHR 0x0A # ind @ CHR ''}'' # rest"
    have rt: "\<forall>p\<in>set (p0 # qs). \<forall>i n r. spaces i \<longrightarrow> steps (snd p) \<le> n \<longrightarrow> numberEnd r \<longrightarrow>
               parseValue n (ser i (snd p) @ r) = Some (snd p, r)"
    proof (intro ballI allI impI)
      fix p i k r
      assume p: "p \<in> set (p0 # qs)" and "spaces i" "steps (snd p) \<le> k" "numberEnd r"
      moreover from wf p have "wfJson (snd p)" by (auto simp: list_all_iff)
      moreover from p have "p \<in> set ps" by (simp add: Cons)
      moreover have "snd p \<in> Basic_BNFs.snds p" by (cases p) simp
      ultimately show "parseValue k (ser i (snd p) @ r) = Some (snd p, r)" by (intro JObj.IH)
    qed
    from m have "stepsMembers (p0 # qs) \<le> m" by (simp add: Cons)
    from parseMembers_round [OF rt wf sp JObj.prems(2) this]
    have 1: "parseMembers m U = Some (p0 # qs, rest)" by (simp only: U_def)
    obtain u' where U: "U = CHR 0x22 # u'" by (simp add: U_def quote_head)
    have 2: "skipWs (CHR 0x0A # (ind @ ''  '') @ U) = CHR 0x22 # u'"
      unfolding U by (rule skipWs_line [OF sp]) simp
    have "parseValue (Suc m) (CHR ''{'' # CHR 0x0A # (ind @ ''  '') @ U) = Some (JObj (objectOf (p0 # qs)), rest)"
      unfolding parseValue_object 2 using 1 by (simp add: U)
    then have P: "parseValue (Suc m) (CHR ''{'' # CHR 0x0A # (ind @ ''  '') @ U) = Some (JObj (p0 # qs), rest)"
      using o by (simp add: Cons)
    from wm have w: "wfMembers (p0 # qs)" by (simp add: Cons)
    from P show ?thesis unfolding n Cons ser_object [OF w] U_def .
  qed
next
  case JUndefined
  then show ?case by simp
next
  case JNull
  then obtain m where n: "n = Suc m" by (cases n) auto
  show ?case unfolding n by (rule parseValue_scalar) (use JNull.prems in simp_all)
next
  case (JBool b)
  then obtain m where n: "n = Suc m" by (cases n) auto
  show ?case unfolding n by (rule parseValue_scalar) (use JBool.prems in simp_all)
next
  case (JNum x)
  then obtain m where n: "n = Suc m" by (cases n) auto
  show ?case unfolding n by (rule parseValue_scalar) (use JNum.prems in simp_all)
next
  case (JStr s)
  then obtain m where n: "n = Suc m" by (cases n) auto
  show ?case unfolding n by (rule parseValue_scalar) (use JStr.prems in simp_all)
qed

text \<open>The length of the text is fuel enough for the parser.\<close>

lemma stepsElems_le:
  assumes "\<forall>x\<in>set xs. steps x \<le> length (f x)"
  shows "stepsElems xs \<le> length (concat (map ((@) (c # sep)) (map f xs)))"
  using assms by (induction xs) (simp_all add: add_mono)

lemma stepsMembers_le:
  assumes "\<forall>p\<in>set ps. steps (snd p) \<le> length (g p)"
  shows "stepsMembers ps \<le> length (concat (map ((@) (c # sep)) (map g ps)))"
  using assms by (induction ps) (simp_all add: add_mono stepsMembers_Cons)

lemma steps_le_length: "wfJson v \<Longrightarrow> steps v \<le> length (ser ind v)"
proof (induction v arbitrary: ind)
  case (JArr xs)
  show ?case
  proof (cases xs)
    case Nil
    then show ?thesis by simp
  next
    case (Cons x0 ys)
    from JArr.prems have wf: "list_all wfJson (x0 # ys)" by (simp add: Cons wfElems_iff)
    have le: "\<forall>x\<in>set (x0 # ys). steps x \<le> length (ser (ind @ ''  '') x)"
    proof
      fix x assume x: "x \<in> set (x0 # ys)"
      with wf have "wfJson x" by (auto simp: list_all_iff)
      moreover from x have "x \<in> set xs" by (simp add: Cons)
      ultimately show "steps x \<le> length (ser (ind @ ''  '') x)" by (rule JArr.IH [rotated])
    qed
    then have "stepsElems ys \<le> length (concat (map ((@) (CHR '','' # CHR 0x0A # (ind @ ''  '')))
                                         (map (ser (ind @ ''  '')) ys)))"
      by (intro stepsElems_le) simp
    moreover from le have "steps x0 \<le> length (ser (ind @ ''  '') x0)" by simp
    moreover have "length (ser ind (JArr (x0 # ys))) = length (ser ind (JArr (x0 # ys)) @ [])"
      by simp
    ultimately show ?thesis unfolding Cons ser_array by simp
  qed
next
  case (JObj ps)
  from JObj.prems have wm: "wfMembers ps" by simp
  show ?case
  proof (cases ps)
    case Nil
    then show ?thesis by simp
  next
    case (Cons p0 qs)
    from wm have wf: "list_all (\<lambda>p. wfJson (snd p)) (p0 # qs)" by (simp add: Cons wfMembers_iff)
    from wm have w: "wfMembers (p0 # qs)" by (simp add: Cons)
    have le: "\<forall>p\<in>set (p0 # qs). steps (snd p)
                \<le> length (quoteJSONString (fst p) @ '': '' @ ser (ind @ ''  '') (snd p))"
    proof
      fix p assume p: "p \<in> set (p0 # qs)"
      with wf have "wfJson (snd p)" by (auto simp: list_all_iff)
      moreover from p have "p \<in> set ps" by (simp add: Cons)
      moreover have "snd p \<in> Basic_BNFs.snds p" by (cases p) simp
      ultimately have "steps (snd p) \<le> length (ser (ind @ ''  '') (snd p))"
        by (intro JObj.IH)
      then show "steps (snd p) \<le> length (quoteJSONString (fst p) @ '': '' @ ser (ind @ ''  '') (snd p))"
        by simp
    qed
    then have "stepsMembers qs \<le> length (concat (map ((@) (CHR '','' # CHR 0x0A # (ind @ ''  '')))
                (map (\<lambda>p. quoteJSONString (fst p) @ '': '' @ ser (ind @ ''  '') (snd p)) qs)))"
      by (intro stepsMembers_le) simp
    moreover from le have "steps (snd p0)
        \<le> length (quoteJSONString (fst p0) @ '': '' @ ser (ind @ ''  '') (snd p0))" by simp
    moreover have "length (ser ind (JObj (p0 # qs))) = length (ser ind (JObj (p0 # qs)) @ [])"
      by simp
    ultimately show ?thesis unfolding Cons ser_object [OF w] by (simp add: stepsMembers_Cons)
  qed
next
  case JUndefined
  then show ?case by simp
next
  case JNull
  then show ?case by simp
next
  case (JBool b)
  then show ?case by simp
next
  case (JNum x)
  from ser_head [OF JNum.prems] obtain c t where "ser ind (JNum x) = c # t" by blast
  then show ?case by simp
next
  case (JStr s)
  then show ?case by (simp add: quote_head)
qed

lemma JSON_round_trip:
  assumes "wfJson v"
  shows "JSON_parse (ser [] v) = Inr v"
proof -
  have "spaces []" by (simp add: spaces_def)
  from parseValue_round [OF assms this steps_le_length [OF assms], of "[]" "[]"]
  have "parseValue (length (ser [] v)) (ser [] v) = Some (v, [])" by simp
  moreover have "skipWs (ser [] v) = ser [] v" using skipWs_ser [OF assms, of "[]" "[]"] by simp
  ultimately show ?thesis by (simp add: JSON_parse_def skipWs_def)
qed

subsection \<open>Binary64: integers and overflow\<close>

text \<open>The binary exponent found by \<open>ilog2\<close> is the right one; an integer below
  \<open>2^53\<close> is a binary64 value; and what reaches \<open>2^1024\<close> rounds to infinity, as the
  literal \<^verbatim>\<open>1e400\<close> does.\<close>

lemma pow2_less_iff: "pow2 x < pow2 y \<longleftrightarrow> x < y"
proof
  assume "pow2 x < pow2 y"
  show "x < y"
  proof (rule ccontr)
    assume "\<not> x < y"
    then have "y \<le> x" by simp
    then have "pow2 y \<le> pow2 x" unfolding pow2_powi by (intro power_int_increasing) simp_all
    with \<open>pow2 x < pow2 y\<close> show False by simp
  qed
next
  assume "x < y"
  then show "pow2 x < pow2 y" unfolding pow2_powi by (intro power_int_strict_increasing) simp_all
qed

lemma pow2_le_iff: "pow2 x \<le> pow2 y \<longleftrightarrow> x \<le> y"
  using pow2_less_iff [of y x] by (simp add: not_less [symmetric])

lemma pow2_diff: "pow2 (x - y) = pow2 x / pow2 y"
  unfolding pow2_powi by (rule power_int_diff) simp

lemma int_bitlen_bounds:
  assumes "0 < p"
  shows "pow2 (bitlen p - 1) \<le> of_int p" and "(of_int p :: rat) < pow2 (bitlen p)"
proof -
  from bitlen_bounds [OF assms] have l: "2 ^ nat (bitlen p - 1) \<le> p" and u: "p < 2 ^ nat (bitlen p)"
    by simp_all
  from assms have b: "1 \<le> bitlen p" by (simp add: bitlen_alt_def)
  from l have "(of_int (2 ^ nat (bitlen p - 1)) :: rat) \<le> of_int p" by (simp only: of_int_le_iff)
  then show "pow2 (bitlen p - 1) \<le> of_int p" using b by (simp add: pow2_def)
  from u have "(of_int p :: rat) < of_int (2 ^ nat (bitlen p))" by (simp only: of_int_less_iff)
  then show "(of_int p :: rat) < pow2 (bitlen p)" using b by (simp add: pow2_def)
qed

lemma ilog2_bounds:
  assumes "0 < a"
  shows "pow2 (ilog2 a) \<le> a" and "a < pow2 (ilog2 a + 1)"
proof -
  obtain p q where pq: "quotient_of a = (p, q)" by (cases "quotient_of a")
  from quotient_of_denom_pos [OF pq] have q: "0 < q" .
  from quotient_of_div [OF pq] have a: "a = of_int p / of_int q" .
  from assms a q have p: "0 < p" by (simp add: zero_less_divide_iff)
  define d where "d = bitlen p - bitlen q"
  have qr: "(0 :: rat) < of_int q" using q by simp
  have "a < pow2 (bitlen p) / of_int q"
    unfolding a using int_bitlen_bounds(2) [OF p] qr by (simp add: divide_strict_right_mono)
  also have "\<dots> \<le> pow2 (bitlen p) / pow2 (bitlen q - 1)"
    using int_bitlen_bounds(1) [OF q] qr
    by (intro divide_left_mono mult_pos_pos) (simp_all add: less_imp_le)
  also have "\<dots> = pow2 (d + 1)" unfolding d_def pow2_diff [symmetric] by (simp add: algebra_simps)
  finally have up: "a < pow2 (d + 1)" .
  have "pow2 (d - 1) = pow2 (bitlen p - 1) / pow2 (bitlen q)"
    unfolding d_def pow2_diff [symmetric] by (simp add: algebra_simps)
  also have "\<dots> \<le> of_int p / pow2 (bitlen q)"
    using int_bitlen_bounds(1) [OF p] by (simp add: divide_right_mono less_imp_le)
  also have "\<dots> \<le> of_int p / of_int q"
    using int_bitlen_bounds(2) [OF q] qr p
    by (intro divide_left_mono mult_pos_pos) (simp_all add: less_imp_le)
  finally have lo: "pow2 (d - 1) \<le> a" unfolding a .
  have i: "ilog2 a = (if pow2 d \<le> a then d else d - 1)"
    by (simp add: ilog2_def pq d_def Let_def)
  show "pow2 (ilog2 a) \<le> a" using lo by (simp add: i)
  show "a < pow2 (ilog2 a + 1)" using up by (simp add: i not_le)
qed

lemma ilog2_ge: "0 < a \<Longrightarrow> pow2 k \<le> a \<Longrightarrow> k \<le> ilog2 a"
  using ilog2_bounds(2) [of a] pow2_less_iff [of k "ilog2 a + 1"] by simp

lemma ilog2_less: "0 < a \<Longrightarrow> a < pow2 k \<Longrightarrow> ilog2 a < k"
  using ilog2_bounds(1) [of a] pow2_less_iff [of "ilog2 a" k] by simp

lemma round_half_even_ge: "\<lfloor>q\<rfloor> \<le> round_half_even q"
  by (simp add: round_half_even_def Let_def)

lemma round_half_even_int: "round_half_even (of_int k) = k"
  by (simp add: round_half_even_def Let_def)

lemma fl_overflow:
  assumes "pow2 1024 \<le> r"
  shows "fl r = PosInf"
proof -
  have r: "0 < r" by (rule less_le_trans [OF pow2_pos assms])
  define L where "L = ilog2 r"
  have L: "1024 \<le> L" unfolding L_def using r assms by (rule ilog2_ge)
  define e where "e = L - 52"
  have e: "max (ilog2 r - 52) (- 1074) = e" using L by (simp add: e_def L_def)
  define m where "m = round_half_even (r / pow2 e)"
  have "pow2 52 = pow2 L / pow2 e" unfolding e_def pow2_diff [symmetric] by simp
  also have "\<dots> \<le> r / pow2 e"
    using ilog2_bounds(1) [OF r] by (simp add: L_def divide_right_mono less_imp_le)
  finally have "pow2 52 \<le> r / pow2 e" .
  then have "(of_int (2 ^ 52) :: rat) \<le> r / pow2 e" by (simp add: pow2_def)
  then have "(2 :: int) ^ 52 \<le> \<lfloor>r / pow2 e\<rfloor>" by (rule iffD2 [OF le_floor_iff])
  then have "2 ^ 52 \<le> m" unfolding m_def by (rule order_trans [OF _ round_half_even_ge])
  then have "53 \<le> bitlen m" by (simp add: bitlen_ge_iff_power)
  with L have "1024 < bitlen m + e" by (simp add: e_def)
  then show ?thesis using r by (simp add: fl_def Let_def e m_def [symmetric])
qed

lemma fl_int_exact:
  assumes "\<bar>n\<bar> < 2 ^ 53"
  shows "fl (of_int n) = Fin (of_int n)"
proof (cases "n = 0")
  case True
  then show ?thesis by (simp add: fl_def)
next
  case False
  define a where "a = \<bar>n\<bar>"
  have a: "0 < a" "a < 2 ^ 53" using False assms by (simp_all add: a_def)
  have ar: "(0 :: rat) < of_int a" using a by simp
  define L where "L = ilog2 (of_int a)"
  have "pow2 0 \<le> of_int a" using a by (simp add: pow2_def)
  then have L0: "0 \<le> L" unfolding L_def using ar by (intro ilog2_ge)
  have "(of_int a :: rat) < of_int (2 ^ 53)" using a(2) by (simp only: of_int_less_iff)
  then have "(of_int a :: rat) < pow2 53" by (simp add: pow2_def)
  then have L1: "L < 53" unfolding L_def using ar by (intro ilog2_less)
  define k where "k = nat (52 - L)"
  have e: "max (L - 52) (- 1074) = - int k" using L0 L1 by (simp add: k_def)
  have p: "pow2 (- int k) = 1 / 2 ^ k" by (simp add: pow2_def)
  have x: "of_int a / pow2 (- int k) = of_int (a * 2 ^ k)" by (simp add: p)
  have m: "round_half_even (of_int a / pow2 (- int k)) = a * 2 ^ k"
    unfolding x by (rule round_half_even_int)
  have "bitlen a \<le> 53" using a by (simp add: bitlen_le_iff_power)
  then have b: "\<not> 1024 < bitlen (a * 2 ^ k) + - int k" using a by simp
  have v: "2 ^ k * pow2 (- int k) = 1" by (simp add: p)
  have abs: "\<bar>of_int n :: rat\<bar> = of_int a" by (simp add: a_def)
  have "fl (of_int n) = Fin (if (of_int n :: rat) < 0 then - of_int a else of_int a)"
    using False b by (simp add: fl_def Let_def abs L_def [symmetric] e m v)
  then show ?thesis by (simp add: a_def)
qed

lemma overflow_literal: "JSON_parse ''1e400'' = Inr (JNum PosInf)"
proof -
  have "(2 :: rat) ^ 1024 \<le> 10 ^ 400" by simp
  then have "pow2 1024 \<le> pow10 400" by (simp add: pow2_def pow10_def)
  then have f: "fl (pow10 400) = PosInf" by (rule fl_overflow)
  have "parseNumber ''1e400'' = Some (PosInf, [])"
    by (simp add: parseNumber_def jsonUnsigned_def jsonExponent_def isDigit_def digitsVal_def
        mvNumber_def Let_def f)
  then show ?thesis
    by (simp add: JSON_parse_def skipWs_def isJsonWs_def eval_nat_numeral)
qed

subsection \<open>Reading back what was written: the history file\<close>

text \<open>What the handler records is JSON data when the request body is: the results carry
  the symbols and quantities of the request, strings made by the program, and the clock.\<close>

lemma map_of_wf: "wfMembers ps \<Longrightarrow> map_of ps k = Some v \<Longrightarrow> wfJson v"
  by (induction ps) (auto split: if_splits)

lemma getProp_wf: "wfJson x \<Longrightarrow> truthy (getProp x k) \<Longrightarrow> wfJson (getProp x k)"
  by (cases x) (auto split: option.splits dest: map_of_wf)

lemma plain_objects:
  "objectOf [(''symbol'', a), (''error'', b)] = [(''symbol'', a), (''error'', b)]"
  "objectOf [(''symbol'', a), (''quantity'', b), (''currentPrice'', c), (''totalValue'', d)]
     = [(''symbol'', a), (''quantity'', b), (''currentPrice'', c), (''totalValue'', d)]"
  "objectOf [(''stocks'', a), (''totalPortfolioValue'', b), (''timestamp'', c), (''id'', d)]
     = [(''stocks'', a), (''totalPortfolioValue'', b), (''timestamp'', c), (''id'', d)]"
  by (simp_all add: objectOf_def isIndexKey_def isDigit_def)

lemma processStock_wf:
  assumes "processStock e x st = Inr st'" and "wfJson x" and "list_all wfJson (results st)"
  shows "list_all wfJson (results st')"
proof -
  have s: "wfJson (getProp x ''symbol'')" if "truthy (getProp x ''symbol'')"
    using that assms(2) by (rule getProp_wf [rotated])
  have q: "wfJson (getProp x ''quantity'')" if "truthy (getProp x ''quantity'')"
    using that assms(2) by (rule getProp_wf [rotated])
  from assms(1,3) s q show ?thesis
    by (auto simp: processStock_def rejected_def push_def Let_def plain_objects getStockPrice_eq
        split: if_splits jsval.splits sum.splits prod.splits bool.splits)
qed

lemma processStocks_wf:
  assumes "processStocks e items st = Inr st'" and "list_all wfJson items"
    and "list_all wfJson (results st)"
  shows "list_all wfJson (results st')"
  using assms
proof (induction items arbitrary: st)
  case Nil
  then show ?case by simp
next
  case (Cons x items)
  from Cons.prems(1) obtain st1 where s1: "processStock e x st = Inr st1"
    and rest: "processStocks e items st1 = Inr st'"
    by (auto split: sum.splits)
  from Cons.prems(2) have "wfJson x" and items: "list_all wfJson items" by simp_all
  from processStock_wf [OF s1 this(1) Cons.prems(3)] have "list_all wfJson (results st1)" .
  from Cons.IH [OF rest items this] show ?case .
qed

lemma clock_double: "\<bar>n\<bar> < 2 ^ 53 \<Longrightarrow> isDouble (fl (of_int n))"
  using fl_int_exact [of n] by (simp add: isDouble_def)

lemma makeEntry_wf:
  assumes "list_all wfJson (results st)" and "\<bar>nowMs e\<bar> < 2 ^ 53"
  shows "wfJson (makeEntry e (makeResponse e st))"
  using assms clock_double [of "nowMs e"]
  by (simp add: makeEntry_def makeResponse_def plain_objects wfElems_iff)

lemma posted_entry_wf:
  assumes "fst (portfolio e body w) = Http 200 resp" and "wfJson body" and "\<bar>nowMs e\<bar> < 2 ^ 53"
  shows "wfJson (makeEntry e resp)"
proof -
  from portfolio_200_D [OF assms(1)] obtain items st where
    stocks: "getProp body ''stocks'' = JArr items"
    and loop: "processStocks e items \<lparr>results = [], total = Fin 0, wld = w\<rparr> = Inr st"
    and resp: "resp = makeResponse e st"
    by blast
  from getProp_wf [OF assms(2), of "''stocks''"] stocks have "list_all wfJson items"
    by (simp add: wfElems_iff)
  from processStocks_wf [OF loop this] have "list_all wfJson (results st)" by simp
  from makeEntry_wf [OF this assms(3)] show ?thesis by (simp add: resp)
qed

text \<open>The file after a successful write reads back as the value written.\<close>

lemma loadHistory_saved:
  assumes "wfJson v" and "writeError e = None"
  shows "loadHistory (snd (saveHistory e v w)) = Inr v"
proof -
  from assms(1) have "v \<noteq> JUndefined" by auto
  from saveHistory_eq [OF this, of e w] assms(2)
  have "historyFile (snd (saveHistory e v w)) = Some (ser [] v)" by simp
  then show ?thesis by (simp add: loadHistory_cases JSON_round_trip [OF assms(1)])
qed

lemma wfElems_take: "wfElems xs \<Longrightarrow> wfElems (take n xs)"
  unfolding wfElems_iff list_all_iff using set_take_subset [of n xs] by blast

lemma record_then_load:
  assumes "loadHistory w = Inr (JArr h)" and "wfElems h" and "wfJson (makeEntry e r)"
    and "writeError e = None"
  shows "loadHistory (snd (recordHistory e r w)) = Inr (JArr (take 50 (makeEntry e r # h)))"
proof -
  from assms(2,3) have "wfElems (makeEntry e r # h)" by simp
  then have "wfJson (JArr (take 50 (makeEntry e r # h)))"
    using wfElems_take [of "makeEntry e r # h" 50] by simp
  from loadHistory_saved [OF this assms(4)] show ?thesis
    unfolding recordHistory_array [OF assms(1)] .
qed

text \<open>
  For the two handlers: after a request that was answered 200, with a body that is JSON
  data, a history that was an array of JSON data and a write that succeeded,
  \<^verbatim>\<open>GET /api/history\<close> answers 200 with the entry of that request at index 0.
\<close>

lemma posted_entry_read_back:
  assumes "fst (portfolio e body w) = Http 200 resp" and "wfJson body" and "\<bar>nowMs e\<bar> < 2 ^ 53"
    and "loadHistory w = Inr (JArr h)" and "wfElems h" and "writeError e = None"
  shows "fst (history (snd (portfolio e body w)))
           = Http 200 (JArr (take 50 (makeEntry e resp # h)))"
proof -
  from portfolio_200_D [OF assms(1)] obtain items st where
    stocks: "getProp body ''stocks'' = JArr items" and ne: "items \<noteq> []"
    and loop: "processStocks e items \<lparr>results = [], total = Fin 0, wld = w\<rparr> = Inr st"
    and resp: "resp = makeResponse e st"
    by blast
  from posted_entry_wf [OF assms(1-3)] assms(5) have "wfElems (makeEntry e resp # h)" by simp
  then have wf: "wfJson (JArr (take 50 (makeEntry e resp # h)))"
    using wfElems_take [of "makeEntry e resp # h" 50] by simp
  have "snd (portfolio e body w)
          = snd (saveHistory e (JArr (take 50 (makeEntry e resp # h))) (wld st))"
    using portfolio_200 [OF stocks ne loop assms(4)] by (simp add: resp)
  with loadHistory_saved [OF wf assms(6), of "wld st"] show ?thesis
    by (simp add: history_def)
qed

text \<open>
  C8, as amended. When the stored history is an array of JSON data, the entry is JSON
  data (no \<^verbatim>\<open>undefined\<close>, every number a finite binary64 value, every object in
  enumeration order) and the write succeeds, \<^verbatim>\<open>GET /api/history\<close> after the recording
  answers 200 with the array that has the entry at index 0, equal to the entry recorded in
  every field: the symbols and the numeric strings are the same strings, the numbers the
  same values (\<open>0\<close> and \<open>-0\<close> are one value here, and both are written as
  \<^verbatim>\<open>0\<close>).
\<close>

theorem history_round_trip:
  assumes "loadHistory w = Inr (JArr h)" and "wfElems h" and "wfJson (makeEntry e r)"
    and "writeError e = None"
  shows "history (snd (recordHistory e r w))
           = (Http 200 (JArr (take 50 (makeEntry e r # h))), snd (recordHistory e r w))
       \<and> take 50 (makeEntry e r # h) ! 0 = makeEntry e r"
  using record_then_load [OF assms] by (simp add: history_def)

lemma aapl_world: "loadHistory aaplWorld = Inr (JArr [aaplEntry])"
  by code_simp

lemma bad_entry_wf: "wfJson (makeEntry (sampleEnv unreachable None) badResponse)"
  by code_simp

theorem history_round_trip_witness:
  "loadHistory aaplWorld = Inr (JArr [aaplEntry])
   \<and> wfElems [aaplEntry]
   \<and> wfJson (makeEntry (sampleEnv unreachable None) badResponse)
   \<and> writeError (sampleEnv unreachable None) = None
   \<and> fst (history (snd (recordHistory (sampleEnv unreachable None) badResponse aaplWorld)))
       = Http 200 (JArr [makeEntry (sampleEnv unreachable None) badResponse, aaplEntry])"
proof -
  have w: "wfElems [aaplEntry]" by code_simp
  have e: "writeError (sampleEnv unreachable None) = None" by (simp add: sampleEnv_def)
  from history_round_trip [OF aapl_world w bad_entry_wf e] aapl_world w bad_entry_wf e
  show ?thesis by simp
qed

text \<open>
  C8 as stated, for every entry, fails: a quantity that is \<^verbatim>\<open>Infinity\<close> (a request
  that says \<^verbatim>\<open>1e400\<close>) is priced and recorded, \<^verbatim>\<open>JSON.stringify\<close> writes it as
  \<^verbatim>\<open>null\<close>, and the entry read back has the quantity \<^verbatim>\<open>null\<close>.
\<close>

lemma overflow_run:
  "fst (portfolio (sampleEnv (fixedPrice (JStr ''150.00'')) None) overflowBody emptyWorld)
       = Http 200 overflowResponse
   \<and> makeEntry (sampleEnv (fixedPrice (JStr ''150.00'')) None) overflowResponse
       = overflowEntry (JNum PosInf)
   \<and> fst (history (snd (portfolio (sampleEnv (fixedPrice (JStr ''150.00'')) None) overflowBody emptyWorld)))
       = Http 200 (JArr [overflowEntry JNull])
   \<and> overflowEntry JNull \<noteq> overflowEntry (JNum PosInf)"
  by code_simp

theorem history_round_trip_counterexample:
  "JSON_parse ''1e400'' = Inr (JNum PosInf)
   \<and> overflowBody = JObj [(''stocks'', JArr [JObj [(''symbol'', JStr ''aapl''),
                                                    (''quantity'', JNum PosInf)]])]
   \<and> fst (portfolio (sampleEnv (fixedPrice (JStr ''150.00'')) None) overflowBody emptyWorld)
       = Http 200 overflowResponse
   \<and> makeEntry (sampleEnv (fixedPrice (JStr ''150.00'')) None) overflowResponse
       = overflowEntry (JNum PosInf)
   \<and> fst (history (snd (portfolio (sampleEnv (fixedPrice (JStr ''150.00'')) None) overflowBody emptyWorld)))
       = Http 200 (JArr [overflowEntry JNull])
   \<and> overflowEntry JNull \<noteq> overflowEntry (JNum PosInf)"
proof -
  have b: "overflowBody = JObj [(''stocks'', JArr [JObj [(''symbol'', JStr ''aapl''),
                                                         (''quantity'', JNum PosInf)]])]"
    by (simp add: overflowBody_def sampleBody_def stockItem1_def)
  from overflow_literal b overflow_run show ?thesis by (intro conjI) blast+
qed

end
